theory Spec2Isabelle
  imports Main "HOL-Library.AList"
begin

section \<open>The graph IR used by the concatenation passes\<close>

text \<open>
  Modelled from the spec: the graph IR (Value, Node, Block, Graph of torch/csrc/jit/ir/ir.h)
  is an external collaborator of concat_opt.cpp and is not part of the sources. Section 3 of
  the spec describes it: a Value is a typed result produced by one node (or a block
  parameter) and consumed by zero or more nodes; a Node has a kind, ordered inputs, outputs
  and nested blocks and a position in its block; a Block is an ordered sequence of nodes.
  Section 9 asks for an arena with stable handles, which is what follows: \<^verbatim>\<open>Node*\<close> and
  \<^verbatim>\<open>Value*\<close> are identifiers, the objects they point to live in two tables, and the
  blocks hold the identifiers of their nodes in program order.
\<close>

type_synonym vid = nat
type_synonym nid = nat

text \<open>
  \<open>OutOfFuel\<close> is no failure of the program: it is the answer of a fuelled recursion of
  this theory that was given too little fuel.
\<close>

datatype error = InternalAssert | OutOfRange | CheckFailed | OutOfFuel

text \<open>The payload of a \<^verbatim>\<open>prim::Constant\<close>: the passes only make \<^verbatim>\<open>None\<close> and integers.\<close>

datatype ivalue = IVNone | IVInt int

text \<open>
  The type of a value. \<open>TensorType (Some sizes)\<close> is a complete tensor type with concrete
  sizes (its rank is the length of \<open>sizes\<close>); \<open>TensorType None\<close> is a tensor whose shape
  is not known.
\<close>

datatype jtype = TensorType "int list option" | IntType | ListType | NoneType

datatype kind = aten_cat | prim_Concat | prim_ListConstruct | aten_empty | aten_slice
  | aten_copy | prim_Constant ivalue | prim_Param | other_op nat

record node =
  kind :: kind
  inputs :: "vid list"
  outputs :: "vid list"

text \<open>A value knows the node that produces it (\<open>None\<close> for a block parameter) and its type.\<close>

record val =
  vnode :: "nid option"
  vtype :: jtype

text \<open>The place of a node in program order: a block lists its nodes, a node its blocks.\<close>

datatype slot = Slot (slot_node: nid) (slot_blocks: "block list")
  and block = Block (nodes: "slot list") (returns: "vid list")

text \<open>
  A graph: the table of its nodes (those made by \<^verbatim>\<open>Graph::create\<close> and not yet inserted
  are in the table and in no block), the table of its values, its top block, and the
  counter new identifiers are drawn from.
\<close>

record graph =
  node_tab :: "(nid \<times> node) list"
  value_tab :: "(vid \<times> val) list"
  top_block :: block
  next_unique :: nat

definition bnd :: "error + 'a \<Rightarrow> ('a \<Rightarrow> error + 'b) \<Rightarrow> error + 'b" where
  "bnd m f = (case m of Inl e \<Rightarrow> Inl e | Inr x \<Rightarrow> f x)"

primrec ids_of_slot :: "slot \<Rightarrow> nid list" and ids_of_block :: "block \<Rightarrow> nid list" where
  "ids_of_slot (Slot i bs) = i # concat (map ids_of_block bs)"
| "ids_of_block (Block ns rs) = concat (map ids_of_slot ns)"

primrec returns_of_slot :: "slot \<Rightarrow> vid list" and returns_of_block :: "block \<Rightarrow> vid list" where
  "returns_of_slot (Slot i bs) = concat (map returns_of_block bs)"
| "returns_of_block (Block ns rs) = concat (map returns_of_slot ns) @ rs"

text \<open>Following a \<^verbatim>\<open>Node*\<close>; a pointer to no node of the graph is an internal error.\<close>

definition deref :: "graph \<Rightarrow> nid \<Rightarrow> error + node" where
  "deref g i = (case map_of (node_tab g) i of Some n \<Rightarrow> Inr n | None \<Rightarrow> Inl InternalAssert)"

definition inBlockList :: "graph \<Rightarrow> nid \<Rightarrow> bool" where
  "inBlockList g i = (i \<in> set (ids_of_block (top_block g)))"

text \<open>
  \<^verbatim>\<open>v->node()\<close>, \<^verbatim>\<open>v->node()->kind()\<close> and \<^verbatim>\<open>v->type()\<close>. A value that is not in the
  table is a block parameter whose type is a tensor of unknown shape.
\<close>

definition value_node :: "graph \<Rightarrow> vid \<Rightarrow> nid option" where
  "value_node g v = (case map_of (value_tab g) v of Some x \<Rightarrow> vnode x | None \<Rightarrow> None)"

definition value_node_kind :: "graph \<Rightarrow> vid \<Rightarrow> kind" where
  "value_node_kind g v =
     (case value_node g v of
        None \<Rightarrow> prim_Param
      | Some i \<Rightarrow> (case map_of (node_tab g) i of Some n \<Rightarrow> kind n | None \<Rightarrow> prim_Param))"

definition value_type :: "graph \<Rightarrow> vid \<Rightarrow> jtype" where
  "value_type g v = (case map_of (value_tab g) v of Some x \<Rightarrow> vtype x | None \<Rightarrow> TensorType None)"

text \<open>A use of a value is an input of a node of the graph or a return of a block.\<close>

definition hasUses :: "graph \<Rightarrow> vid \<Rightarrow> bool" where
  "hasUses g v =
     (list_ex (\<lambda>p. v \<in> set (inputs (snd p))) (node_tab g)
      \<or> v \<in> set (returns_of_block (top_block g)))"


text \<open>\<^verbatim>\<open>n->input(i)\<close> is \<^verbatim>\<open>inputs_.at(i)\<close>; \<^verbatim>\<open>n->output()\<close> asserts that there is one output.\<close>

definition input_at :: "node \<Rightarrow> nat \<Rightarrow> error + vid" where
  "input_at n i = (if i < length (inputs n) then Inr (inputs n ! i) else Inl OutOfRange)"

definition node_output :: "node \<Rightarrow> error + vid" where
  "node_output n = (case outputs n of [v] \<Rightarrow> Inr v | _ \<Rightarrow> Inl InternalAssert)"

text \<open>
  \<^verbatim>\<open>Graph::create(kind, inputs)\<close> makes a node with one output, in no block. The new node
  and its output value both take the next identifier; the result is that identifier.
\<close>

definition create :: "graph \<Rightarrow> kind \<Rightarrow> vid list \<Rightarrow> jtype \<Rightarrow> nat \<times> graph" where
  "create g k ins t =
     (let u = next_unique g in
      (u, g\<lparr>node_tab := AList.update u \<lparr>kind = k, inputs = ins, outputs = [u]\<rparr> (node_tab g),
            value_tab := AList.update u \<lparr>vnode = Some u, vtype = t\<rparr> (value_tab g),
            next_unique := u + 1\<rparr>))"

primrec rauw_slot :: "vid \<Rightarrow> vid \<Rightarrow> slot \<Rightarrow> slot"
  and rauw_block :: "vid \<Rightarrow> vid \<Rightarrow> block \<Rightarrow> block" where
  "rauw_slot old new (Slot i bs) = Slot i (map (rauw_block old new) bs)"
| "rauw_block old new (Block ns rs) =
     Block (map (rauw_slot old new) ns) (map (\<lambda>v. if v = old then new else v) rs)"

text \<open>\<^verbatim>\<open>old->replaceAllUsesWith(new)\<close>: every consumer of \<open>old\<close> consumes \<open>new\<close> instead.\<close>

definition replaceAllUsesWith :: "graph \<Rightarrow> vid \<Rightarrow> vid \<Rightarrow> graph" where
  "replaceAllUsesWith g old new =
     g\<lparr>node_tab :=
         map (\<lambda>p. (fst p, (snd p)\<lparr>inputs := map (\<lambda>v. if v = old then new else v) (inputs (snd p))\<rparr>))
           (node_tab g),
       top_block := rauw_block old new (top_block g)\<rparr>"

primrec remove_slot :: "nid \<Rightarrow> slot \<Rightarrow> slot" and remove_block :: "nid \<Rightarrow> block \<Rightarrow> block" where
  "remove_slot t (Slot i bs) = Slot i (map (remove_block t) bs)"
| "remove_block t (Block ns rs) =
     Block (filter (\<lambda>s. slot_node s \<noteq> t) (map (remove_slot t) ns)) rs"

primrec insert_slot :: "slot \<Rightarrow> nid \<Rightarrow> slot \<Rightarrow> slot"
  and insert_block :: "slot \<Rightarrow> nid \<Rightarrow> block \<Rightarrow> block" where
  "insert_slot new t (Slot i bs) = Slot i (map (insert_block new t) bs)"
| "insert_block new t (Block ns rs) =
     Block (concat (map (\<lambda>s. if slot_node s = t then [new, s] else [s])
              (map (insert_slot new t) ns))) rs"

fun first_some :: "'a option list \<Rightarrow> 'a option" where
  "first_some [] = None"
| "first_some (None # xs) = first_some xs"
| "first_some (Some x # xs) = Some x"

primrec find_slot :: "nid \<Rightarrow> slot \<Rightarrow> slot option" and find_slot_block :: "nid \<Rightarrow> block \<Rightarrow> slot option"
  where
  "find_slot t (Slot i bs) =
     (if i = t then Some (Slot i bs) else first_some (map (find_slot_block t) bs))"
| "find_slot_block t (Block ns rs) = first_some (map (find_slot t) ns)"

text \<open>\<^verbatim>\<open>new->insertBefore(cur)\<close> asserts that \<open>cur\<close> stands in a block and \<open>new\<close> in none.\<close>

definition insertBefore :: "graph \<Rightarrow> nid \<Rightarrow> nid \<Rightarrow> error + graph" where
  "insertBefore g new cur =
     (if map_of (node_tab g) new = None \<or> inBlockList g new \<or> \<not> inBlockList g cur
      then Inl InternalAssert
      else Inr (g\<lparr>top_block := insert_block (Slot new []) cur (top_block g)\<rparr>))"

text \<open>
  \<^verbatim>\<open>n->destroy()\<close> asserts that no output of the node has a use left, then takes the node
  out of its block and frees it.
\<close>

definition destroy :: "graph \<Rightarrow> nid \<Rightarrow> error + graph" where
  "destroy g i =
     bnd (deref g i) (\<lambda>n.
       if list_ex (hasUses g) (outputs n) then Inl InternalAssert
       else Inr (g\<lparr>node_tab := AList.delete i (node_tab g),
                   value_tab := filter (\<lambda>p. fst p \<notin> set (outputs n)) (value_tab g),
                   top_block := remove_block i (top_block g)\<rparr>))"

text \<open>\<^verbatim>\<open>n->moveBefore(before)\<close> is \<^verbatim>\<open>removeFromList()\<close>, then \<^verbatim>\<open>insertBefore(before)\<close>.\<close>

definition moveBefore :: "graph \<Rightarrow> nid \<Rightarrow> nid \<Rightarrow> error + graph" where
  "moveBefore g i before_n =
     (case find_slot_block i (top_block g) of
        None \<Rightarrow> Inl InternalAssert
      | Some s \<Rightarrow>
          let b1 = remove_block i (top_block g) in
          if before_n \<notin> set (ids_of_block b1) then Inl InternalAssert
          else Inr (g\<lparr>top_block := insert_block s before_n b1\<rparr>))"

text \<open>
  \<^verbatim>\<open>node->isDominatedBy(prev)\<close>: walking from \<open>node\<close> up through the nodes that own its
  block, the first ancestor that stands in the block of \<open>prev\<close> must come after \<open>prev\<close>
  there. \<open>dom_scan\<close> reads one block from its start.
\<close>

definition contains_node :: "nid \<Rightarrow> slot \<Rightarrow> bool" where
  "contains_node n s = (n \<in> set (ids_of_slot s))"

fun dom_scan :: "nid \<Rightarrow> nid \<Rightarrow> slot list \<Rightarrow> bool list \<Rightarrow> bool" where
  "dom_scan n d (m # ms) (r # rs) =
     (if slot_node m = d then list_ex (contains_node n) ms
      else if contains_node n m then r
      else dom_scan n d ms rs)"
| "dom_scan n d _ _ = False"

primrec dom_slot :: "nid \<Rightarrow> nid \<Rightarrow> slot \<Rightarrow> bool" and dom_block :: "nid \<Rightarrow> nid \<Rightarrow> block \<Rightarrow> bool" where
  "dom_slot n d (Slot i bs) = list_ex (\<lambda>r. r) (map (dom_block n d) bs)"
| "dom_block n d (Block ns rs) = dom_scan n d ns (map (dom_slot n d) ns)"

definition isDominatedBy :: "graph \<Rightarrow> nid \<Rightarrow> nid \<Rightarrow> bool" where
  "isDominatedBy g n d = dom_block n d (top_block g)"

text \<open>
  Modelled from the spec: \<^verbatim>\<open>constant_as<int64_t>(v)\<close> (ir/constants.h) is the integer of
  a compile-time constant integer and nothing for any other value.
\<close>

definition constant_as_int :: "graph \<Rightarrow> vid \<Rightarrow> int option" where
  "constant_as_int g v =
     (case value_node_kind g v of prim_Constant (IVInt i) \<Rightarrow> Some i | _ \<Rightarrow> None)"

text \<open>
  \<^verbatim>\<open>Graph::insertConstant(val)\<close> makes a \<^verbatim>\<open>prim::Constant\<close> and inserts it at the insertion
  point, which \<^verbatim>\<open>WithInsertPoint guard(node)\<close> sets to just before \<open>node\<close>.
\<close>

definition insertConstant :: "graph \<Rightarrow> nid \<Rightarrow> ivalue \<Rightarrow> error + (vid \<times> graph)" where
  "insertConstant g insert_point v =
     (let (c, g1) = create g (prim_Constant v) []
                      (case v of IVNone \<Rightarrow> NoneType | IVInt i \<Rightarrow> IntType)
      in bnd (insertBefore g1 c insert_point) (\<lambda>g2. Inr (c, g2)))"

section \<open>Helpers of concat\_opt.cpp\<close>

text \<open>
  \<^verbatim>\<open>equal(list1, list2)\<close>: same size and \<^verbatim>\<open>std::equal\<close> over the elements, which are
  \<^verbatim>\<open>Value*\<close> compared by identity.
\<close>

definition equal :: "vid list \<Rightarrow> vid list \<Rightarrow> bool" where
  "equal list1 list2 = (length list1 = length list2 \<and> list_all2 (\<lambda>a b. a = b) list1 list2)"

text \<open>
  \<^verbatim>\<open>size() - 1\<close> is computed on \<^verbatim>\<open>size_t\<close> and wraps at 0; \<^verbatim>\<open>ArrayRef::slice(N, M)\<close>
  checks \<^verbatim>\<open>N + M <= size()\<close>.
\<close>

definition size_t_minus_1 :: "nat \<Rightarrow> nat" where
  "size_t_minus_1 n = (if n = 0 then 2 ^ 64 - 1 else n - 1)"

definition slice :: "'a list \<Rightarrow> nat \<Rightarrow> nat \<Rightarrow> error + 'a list" where
  "slice xs N M = (if N + M \<le> length xs then Inr (take M (drop N xs)) else Inl CheckFailed)"


section \<open>ConcatCommonInputsEliminator\<close>

text \<open>
  The members of the class. \<open>concated_outputs\<close> is a \<^verbatim>\<open>std::unordered_set<Node*>\<close> and
  \<open>concats_to_replace\<close> a \<^verbatim>\<open>std::unordered_map<Node*, Node*>\<close>: both are kept in insertion
  order here, and a loop over one of them visits \<open>iter_set xs\<close> (\<open>iter_map xs\<close>), where the
  parameter \<open>iter_set\<close> (\<open>iter_map\<close>) is the order in which the hash container hands out
  its elements. The alias analysis is built from the graph on first use and is the
  parameter \<open>hasWriters\<close>.
\<close>

record elim_state =
  graph_of :: graph
  concated_outputs :: "nid list"
  concats_to_replace :: "(nid \<times> nid) list"

text \<open>
  One of the two search loops of \<^verbatim>\<open>handleCat\<close> (lines 102-122 and 146-166): the first
  \<open>prev\<close> of the iteration whose tensor inputs equal \<open>target\<close>, whose dim is \<open>curr_dim\<close>
  and which dominates \<open>node\<close>; a match that does not dominate is skipped.
\<close>

fun search_prev :: "graph \<Rightarrow> nid \<Rightarrow> vid list \<Rightarrow> vid \<Rightarrow> nid list \<Rightarrow> error + nid option" where
  "search_prev g node target curr_dim [] = Inr None"
| "search_prev g node target curr_dim (prev # rest) =
     bnd (deref g prev) (\<lambda>prev_node.
       let prev_all_inputs = inputs prev_node in
       bnd (slice prev_all_inputs 0 (size_t_minus_1 (length prev_all_inputs)))
         (\<lambda>prev_tensor_inputs.
           let prev_dim = last prev_all_inputs in
           if equal target prev_tensor_inputs \<and> curr_dim = prev_dim then
             (if \<not> isDominatedBy g node prev
              then search_prev g node target curr_dim rest
              else Inr (Some prev))
           else search_prev g node target curr_dim rest))"

text \<open>
  The body of a match (lines 115-120 and 159-164): make the new \<^verbatim>\<open>prim::Concat\<close>, give
  its output the type of the old output, and record the substitution.
\<close>

definition record_replacement :: "elim_state \<Rightarrow> nid \<Rightarrow> vid list \<Rightarrow> error + elim_state" where
  "record_replacement st node new_inputs =
     bnd (deref (graph_of st) node) (\<lambda>n.
     bnd (node_output n) (\<lambda>out.
       let (new_concat, g') = create (graph_of st) prim_Concat new_inputs
                                (value_type (graph_of st) out)
       in Inr (st\<lparr>graph_of := g',
                  concats_to_replace := concats_to_replace st @ [(node, new_concat)]\<rparr>)))"

definition prev_output :: "graph \<Rightarrow> nid \<Rightarrow> error + vid" where
  "prev_output g prev = bnd (deref g prev) node_output"

definition handleCat ::
  "(nid list \<Rightarrow> nid list) \<Rightarrow> (vid \<Rightarrow> bool) \<Rightarrow> nid \<Rightarrow> elim_state \<Rightarrow> error + elim_state" where
  "handleCat iter_set hasWriters node st =
     bnd (deref (graph_of st) node) (\<lambda>n.
      let curr_all_inputs = inputs n in
      bnd (slice curr_all_inputs 0 (size_t_minus_1 (length curr_all_inputs)))
        (\<lambda>curr_tensor_inputs.
      let curr_dim = last curr_all_inputs in
      bnd (node_output n) (\<lambda>out.
      let st1 = (if \<not> hasWriters out
                 then st\<lparr>concated_outputs := concated_outputs st @ [node]\<rparr> else st) in
      if length curr_tensor_inputs \<le> 2 then Inr st1
      else
        bnd (slice curr_tensor_inputs 0 (size_t_minus_1 (length curr_tensor_inputs)))
          (\<lambda>curr_tensor_inputs_prefix.
        bnd (search_prev (graph_of st1) node curr_tensor_inputs_prefix curr_dim
               (iter_set (concated_outputs st1)))
          (\<lambda>found_prefix.
        case found_prefix of
          Some prev \<Rightarrow>
            bnd (prev_output (graph_of st1) prev) (\<lambda>prev_out.
              record_replacement st1 node [prev_out, last curr_tensor_inputs, curr_dim])
        | None \<Rightarrow>
            bnd (slice curr_tensor_inputs 1 (size_t_minus_1 (length curr_tensor_inputs)))
              (\<lambda>curr_tensor_inputs_suffix.
            bnd (search_prev (graph_of st1) node curr_tensor_inputs_suffix curr_dim
                   (iter_set (concated_outputs st1)))
              (\<lambda>found_suffix.
            case found_suffix of
              Some prev \<Rightarrow>
                bnd (prev_output (graph_of st1) prev) (\<lambda>prev_out.
                  record_replacement st1 node [hd curr_tensor_inputs, prev_out, curr_dim])
            | None \<Rightarrow> Inr st1)))))))"

text \<open>
  \<^verbatim>\<open>handleBlock\<close>: the nodes of a block in order; a \<^verbatim>\<open>prim::Concat\<close> is handled, then
  the blocks of the node are walked.
\<close>

function Eliminator_handleBlock ::
    "(nid list \<Rightarrow> nid list) \<Rightarrow> (vid \<Rightarrow> bool) \<Rightarrow> slot list \<Rightarrow> elim_state \<Rightarrow> error + elim_state"
  and Eliminator_handleBlocks ::
    "(nid list \<Rightarrow> nid list) \<Rightarrow> (vid \<Rightarrow> bool) \<Rightarrow> block list \<Rightarrow> elim_state \<Rightarrow> error + elim_state"
  where
  "Eliminator_handleBlock iter_set hasWriters [] st = Inr st"
| "Eliminator_handleBlock iter_set hasWriters (s # rest) st =
     bnd (deref (graph_of st) (slot_node s)) (\<lambda>n.
     bnd (if kind n = prim_Concat then handleCat iter_set hasWriters (slot_node s) st else Inr st)
       (\<lambda>st1. bnd (Eliminator_handleBlocks iter_set hasWriters (slot_blocks s) st1)
         (\<lambda>st2. Eliminator_handleBlock iter_set hasWriters rest st2)))"
| "Eliminator_handleBlocks iter_set hasWriters [] st = Inr st"
| "Eliminator_handleBlocks iter_set hasWriters (b # bs) st =
     bnd (Eliminator_handleBlock iter_set hasWriters (nodes b) st)
       (\<lambda>st1. Eliminator_handleBlocks iter_set hasWriters bs st1)"
  by pat_completeness auto
termination
  by (relation "measure (\<lambda>x. case x of
          Inl (_, _, ns, _) \<Rightarrow> size_list size ns
        | Inr (_, _, bs, _) \<Rightarrow> size_list size bs)")
     (auto, (case_tac s, simp)?, (case_tac b, simp)?)

text \<open>
  \<^verbatim>\<open>postprocess\<close>: for every recorded substitution, insert the new node before the old
  one, redirect the uses of the old output, destroy the old node.
\<close>

fun postprocess_loop :: "(nid \<times> nid) list \<Rightarrow> bool \<Rightarrow> graph \<Rightarrow> error + (bool \<times> graph)" where
  "postprocess_loop [] changed g = Inr (changed, g)"
| "postprocess_loop ((curr_node, new_node) # rest) changed g =
     bnd (insertBefore g new_node curr_node) (\<lambda>g1.
     bnd (bnd (deref g1 curr_node) node_output) (\<lambda>curr_out.
     bnd (bnd (deref g1 new_node) node_output) (\<lambda>new_out.
     bnd (destroy (replaceAllUsesWith g1 curr_out new_out) curr_node) (\<lambda>g2.
     postprocess_loop rest True g2))))"

definition postprocess ::
  "((nid \<times> nid) list \<Rightarrow> (nid \<times> nid) list) \<Rightarrow> elim_state \<Rightarrow> error + (bool \<times> graph)" where
  "postprocess iter_map st = postprocess_loop (iter_map (concats_to_replace st)) False (graph_of st)"

definition Eliminator_run ::
  "(nid list \<Rightarrow> nid list) \<Rightarrow> ((nid \<times> nid) list \<Rightarrow> (nid \<times> nid) list) \<Rightarrow> (vid \<Rightarrow> bool)
    \<Rightarrow> graph \<Rightarrow> error + (bool \<times> graph)" where
  "Eliminator_run iter_set iter_map hasWriters g =
     bnd (Eliminator_handleBlock iter_set hasWriters (nodes (top_block g))
            \<lparr>graph_of = g, concated_outputs = [], concats_to_replace = []\<rparr>)
       (\<lambda>st. postprocess iter_map st)"

definition EliminateConcatCommonInputs ::
  "(nid list \<Rightarrow> nid list) \<Rightarrow> ((nid \<times> nid) list \<Rightarrow> (nid \<times> nid) list) \<Rightarrow> (vid \<Rightarrow> bool)
    \<Rightarrow> graph \<Rightarrow> error + (bool \<times> graph)" where
  "EliminateConcatCommonInputs iter_set iter_map hasWriters g =
     Eliminator_run iter_set iter_map hasWriters g"

section \<open>ConcatExpander\<close>

text \<open>
  The members of the class: \<open>nodes_to_remove\<close> is a \<^verbatim>\<open>std::unordered_set<Node*>\<close>,
  \<open>replace_uses_with\<close> a \<^verbatim>\<open>std::unordered_map<Value*, Value*>\<close> (both in insertion
  order, iterated through \<open>iter_set\<close> and \<open>iter_map\<close>), \<open>copies_added\<close> and
  \<open>slices_added\<close> are vectors.
\<close>

record expander_state =
  egraph :: graph
  nodes_to_remove :: "nid list"
  replace_uses_with :: "(vid \<times> vid) list"
  copies_added :: "nid list"
  slices_added :: "nid list"

text \<open>\<^verbatim>\<open>shapeIsKnown\<close> and \<^verbatim>\<open>allShapesAreKnown\<close> (lines 360-384).\<close>

definition shapeIsKnown :: "graph \<Rightarrow> vid \<Rightarrow> bool" where
  "shapeIsKnown g v =
     (case value_type g v of
        TensorType None \<Rightarrow> False
      | TensorType (Some sizes) \<Rightarrow> length sizes \<noteq> 0
      | _ \<Rightarrow> True)"

definition allShapesAreKnown :: "graph \<Rightarrow> node \<Rightarrow> bool" where
  "allShapesAreKnown g n =
     (list_all (shapeIsKnown g) (inputs n) \<and> list_all (shapeIsKnown g) (outputs n))"

text \<open>
  \<^verbatim>\<open>sizes[i]\<close> on the sizes of a tensor type takes a \<^verbatim>\<open>size_t\<close> and is bounds-checked
  (\<^verbatim>\<open>VaryingShape::operator[]\<close> is \<^verbatim>\<open>dims_.at(i)\<close>); the \<^verbatim>\<open>int64_t\<close> axis is converted, so
  a negative axis is out of range.
\<close>

definition sizes_at :: "int list \<Rightarrow> int \<Rightarrow> error + int" where
  "sizes_at sizes i =
     (if 0 \<le> i \<and> nat i < length sizes then Inr (sizes ! nat i) else Inl OutOfRange)"

text \<open>The narrowing of an \<^verbatim>\<open>int64_t\<close> to the 32-bit \<^verbatim>\<open>int\<close> of \<^verbatim>\<open>end_idx\<close> (line 336).\<close>

definition narrow_to_int :: "int \<Rightarrow> int" where
  "narrow_to_int x = (x + 2 ^ 31) mod 2 ^ 32 - 2 ^ 31"

text \<open>The loop of lines 305-307: one constant for every size of the output.\<close>

fun insert_size_constants ::
  "graph \<Rightarrow> nid \<Rightarrow> int list \<Rightarrow> vid list \<Rightarrow> error + (vid list \<times> graph)" where
  "insert_size_constants g node [] cat_out_size = Inr (cat_out_size, g)"
| "insert_size_constants g node (sz # rest) cat_out_size =
     bnd (insertConstant g node (IVInt sz)) (\<lambda>r.
       insert_size_constants (snd r) node rest (cat_out_size @ [fst r]))"

text \<open>
  The loop of lines 327-353 over the inputs of the list: a slice of the output buffer
  from \<open>start\<close> to \<open>end\<close> along \<open>cat_dim\<close>, and a copy of the input into the slice.
\<close>

fun expand_inputs ::
  "nid \<Rightarrow> vid \<Rightarrow> vid \<Rightarrow> int \<Rightarrow> vid \<Rightarrow> vid list \<Rightarrow> int \<Rightarrow> vid \<Rightarrow> expander_state
    \<Rightarrow> error + expander_state" where
  "expand_inputs node cat_out_value cat_dim cat_dim_value one [] start_idx start st = Inr st"
| "expand_inputs node cat_out_value cat_dim cat_dim_value one (cat_inp # rest) start_idx start st =
     (case value_type (egraph st) cat_inp of
        TensorType (Some cat_inp_tensortype_sizes) \<Rightarrow>
          bnd (sizes_at cat_inp_tensortype_sizes cat_dim_value) (\<lambda>extent.
          let end_idx = narrow_to_int (start_idx + extent) in
          bnd (insertConstant (egraph st) node (IVInt end_idx)) (\<lambda>r_end.
          let (slice_node, g1) =
                create (snd r_end) aten_slice [cat_out_value, cat_dim, start, fst r_end, one]
                  (TensorType None) in
          bnd (insertBefore g1 slice_node node) (\<lambda>g2.
          let (copy, g3) = create g2 aten_copy [slice_node, cat_inp] (TensorType None) in
          bnd (insertBefore g3 copy node) (\<lambda>g4.
          expand_inputs node cat_out_value cat_dim cat_dim_value one rest end_idx (fst r_end)
            (st\<lparr>egraph := g4,
                slices_added := slices_added st @ [slice_node],
                copies_added := copies_added st @ [copy]\<rparr>)))))
      | _ \<Rightarrow> Inl InternalAssert)"

text \<open>\<^verbatim>\<open>expandCat\<close> (lines 261-358).\<close>

definition expandCat :: "(vid \<Rightarrow> bool) \<Rightarrow> nid \<Rightarrow> expander_state \<Rightarrow> error + expander_state" where
  "expandCat hasWriters node st =
     (let g = egraph st in
      bnd (deref g node) (\<lambda>n.
      bnd (input_at n 0) (\<lambda>input0.
      if hasWriters input0 then Inr st
      else if value_node_kind g input0 \<noteq> prim_ListConstruct then Inr st
      else if \<not> allShapesAreKnown g n then Inr st
      else
        (case value_node g input0 of
           None \<Rightarrow> Inl InternalAssert
         | Some cat_inp_list \<Rightarrow>
        bnd (deref g cat_inp_list) (\<lambda>list_node.
        if \<not> list_all (shapeIsKnown g) (inputs list_node) then Inr st
        else
          bnd (input_at n 1) (\<lambda>cat_dim.
          case constant_as_int g cat_dim of
            None \<Rightarrow> Inr st
          | Some cat_dim_value \<Rightarrow>
              bnd (insertConstant g node IVNone) (\<lambda>r_none.
              bnd (insertConstant (snd r_none) node (IVInt 1)) (\<lambda>r_one.
              bnd (node_output n) (\<lambda>out.
              case value_type (snd r_one) out of
                TensorType tensortype_sizes \<Rightarrow>
                  bnd (insert_size_constants (snd r_one) node
                         (case tensortype_sizes of Some sizes \<Rightarrow> sizes | None \<Rightarrow> []) [])
                    (\<lambda>r_sizes.
                  let (cat_out_size_list, g1) =
                        create (snd r_sizes) prim_ListConstruct (fst r_sizes) ListType in
                  bnd (insertBefore g1 cat_out_size_list node) (\<lambda>g2.
                  let none = fst r_none;
                      (cat_out_empty, g3) =
                        create g2 aten_empty [cat_out_size_list, none, none, none, none, none]
                          (TensorType None) in
                  bnd (insertBefore g3 cat_out_empty node) (\<lambda>g4.
                  bnd (insertConstant g4 node (IVInt 0)) (\<lambda>r_start.
                  bnd (expand_inputs node cat_out_empty cat_dim cat_dim_value (fst r_one)
                         (inputs list_node) 0 (fst r_start) (st\<lparr>egraph := snd r_start\<rparr>))
                    (\<lambda>st1.
                  Inr (st1\<lparr>replace_uses_with := replace_uses_with st1 @ [(out, cat_out_empty)],
                          nodes_to_remove := nodes_to_remove st1 @ [node]\<rparr>))))))
              | _ \<Rightarrow> Inl InternalAssert)))))))))"

function Expander_handleBlock ::
    "(vid \<Rightarrow> bool) \<Rightarrow> slot list \<Rightarrow> expander_state \<Rightarrow> error + expander_state"
  and Expander_handleBlocks ::
    "(vid \<Rightarrow> bool) \<Rightarrow> block list \<Rightarrow> expander_state \<Rightarrow> error + expander_state"
  where
  "Expander_handleBlock hasWriters [] st = Inr st"
| "Expander_handleBlock hasWriters (s # rest) st =
     bnd (deref (egraph st) (slot_node s)) (\<lambda>n.
     bnd (if kind n = aten_cat then expandCat hasWriters (slot_node s) st else Inr st)
       (\<lambda>st1. bnd (Expander_handleBlocks hasWriters (slot_blocks s) st1)
         (\<lambda>st2. Expander_handleBlock hasWriters rest st2)))"
| "Expander_handleBlocks hasWriters [] st = Inr st"
| "Expander_handleBlocks hasWriters (b # bs) st =
     bnd (Expander_handleBlock hasWriters (nodes b) st)
       (\<lambda>st1. Expander_handleBlocks hasWriters bs st1)"
  by pat_completeness auto
termination
  by (relation "measure (\<lambda>x. case x of
          Inl (_, ns, _) \<Rightarrow> size_list size ns
        | Inr (_, bs, _) \<Rightarrow> size_list size bs)")
     (auto, (case_tac s, simp)?, (case_tac b, simp)?)




text \<open>
  \<^verbatim>\<open>ConcatExpander::moveBefore\<close> (lines 400-407) calls itself on the producer of every
  input before it moves the node. The recursion follows the inputs and ends when the
  graph has no cycle; here it takes fuel.
\<close>

fun moveBefore_rec :: "nat \<Rightarrow> graph \<Rightarrow> nid \<Rightarrow> nid \<Rightarrow> error + graph"
  and moveBefore_inputs :: "nat \<Rightarrow> graph \<Rightarrow> vid list \<Rightarrow> nid \<Rightarrow> error + graph" where
  "moveBefore_rec 0 g node before_n = Inl OutOfFuel"
| "moveBefore_rec (Suc fuel) g node before_n =
     bnd (deref g node) (\<lambda>n.
     bnd (moveBefore_inputs fuel g (inputs n) before_n) (\<lambda>g1. moveBefore g1 node before_n))"
| "moveBefore_inputs fuel g [] before_n = Inr g"
| "moveBefore_inputs fuel g (inp # rest) before_n =
     (case value_node g inp of
        None \<Rightarrow> Inl InternalAssert
      | Some p \<Rightarrow>
          bnd (moveBefore_rec fuel g p before_n) (\<lambda>g1. moveBefore_inputs fuel g1 rest before_n))"






section \<open>VariadicCatUpdater and the fixpoint driver\<close>

text \<open>\<^verbatim>\<open>collectCatNodes\<close>: every \<^verbatim>\<open>aten::cat\<close> of the block and of the blocks below it.\<close>

function collectCatNodes :: "graph \<Rightarrow> slot list \<Rightarrow> nid list \<Rightarrow> error + nid list"
  and collectCatNodes_blocks :: "graph \<Rightarrow> block list \<Rightarrow> nid list \<Rightarrow> error + nid list" where
  "collectCatNodes g [] cat_nodes = Inr cat_nodes"
| "collectCatNodes g (s # rest) cat_nodes =
     bnd (deref g (slot_node s)) (\<lambda>n.
     bnd (collectCatNodes_blocks g (slot_blocks s)
            (if kind n = aten_cat then cat_nodes @ [slot_node s] else cat_nodes))
       (\<lambda>cat_nodes1. collectCatNodes g rest cat_nodes1))"
| "collectCatNodes_blocks g [] cat_nodes = Inr cat_nodes"
| "collectCatNodes_blocks g (b # bs) cat_nodes =
     bnd (collectCatNodes g (nodes b) cat_nodes)
       (\<lambda>cat_nodes1. collectCatNodes_blocks g bs cat_nodes1)"
  by pat_completeness auto
termination
  by (relation "measure (\<lambda>x. case x of
          Inl (_, ns, _) \<Rightarrow> size_list size ns
        | Inr (_, bs, _) \<Rightarrow> size_list size bs)")
     (auto, (case_tac s, simp)?, (case_tac b, simp)?)

text \<open>
  \<^verbatim>\<open>replaceWithVariadicCat\<close> (lines 525-550). The alias analysis is built from the graph
  on its first use; its answer to \<^verbatim>\<open>couldMoveBeforeTopologically(list, cat)\<close> is the
  parameter. The new node keeps the default type of a new output.
\<close>

definition replaceWithVariadicCat ::
  "(nid \<Rightarrow> nid \<Rightarrow> bool) \<Rightarrow> nid \<Rightarrow> graph \<Rightarrow> error + (bool \<times> graph)" where
  "replaceWithVariadicCat couldMoveBeforeTopologically cat g =
     bnd (deref g cat) (\<lambda>cat_node.
     bnd (input_at cat_node 0) (\<lambda>input0.
       if value_node_kind g input0 \<noteq> prim_ListConstruct then Inr (False, g)
       else
         (case value_node g input0 of
            None \<Rightarrow> Inl InternalAssert
          | Some list \<Rightarrow>
              if \<not> couldMoveBeforeTopologically list cat then Inr (False, g)
              else
                bnd (deref g list) (\<lambda>list_node.
                bnd (input_at cat_node 1) (\<lambda>input1.
                let (var_cat, g1) = create g prim_Concat (inputs list_node @ [input1])
                                      (TensorType None) in
                bnd (insertBefore g1 var_cat cat) (\<lambda>g2.
                bnd (node_output cat_node) (\<lambda>cat_out.
                let g3 = replaceAllUsesWith g2 cat_out var_cat in
                bnd (destroy g3 cat) (\<lambda>g4.
                  if \<not> list_ex (hasUses g4) (outputs list_node)
                  then bnd (destroy g4 list) (\<lambda>g5. Inr (True, g5))
                  else Inr (True, g4)))))))))"

text \<open>
  The loop of \<^verbatim>\<open>run\<close> (lines 507-509): \<^verbatim>\<open>changed = changed || replaceWithVariadicCat(c)\<close>.
  The operator \<^verbatim>\<open>||\<close> evaluates its right operand only when the left one is false.
\<close>

fun run_loop ::
  "(nid \<Rightarrow> nid \<Rightarrow> bool) \<Rightarrow> nid list \<Rightarrow> bool \<Rightarrow> graph \<Rightarrow> error + (bool \<times> graph)" where
  "run_loop cm [] changed g = Inr (changed, g)"
| "run_loop cm (c # cs) changed g =
     (if changed then run_loop cm cs True g
      else bnd (replaceWithVariadicCat cm c g) (\<lambda>r. run_loop cm cs (fst r) (snd r)))"

definition VariadicCatUpdater_run ::
  "(nid \<Rightarrow> nid \<Rightarrow> bool) \<Rightarrow> graph \<Rightarrow> error + (bool \<times> graph)" where
  "VariadicCatUpdater_run cm g =
     bnd (collectCatNodes g (nodes (top_block g)) []) (\<lambda>cat_nodes. run_loop cm cat_nodes False g)"

definition UseVariadicCat :: "(nid \<Rightarrow> nid \<Rightarrow> bool) \<Rightarrow> graph \<Rightarrow> error + (bool \<times> graph)" where
  "UseVariadicCat cm g = VariadicCatUpdater_run cm g"



section \<open>Notions used in the statements\<close>

text \<open>
  A loop over a hash container visits every element once: \<open>iter\<close> hands out the
  elements of the container, in an order of its own.
\<close>

definition enumerates :: "('a list \<Rightarrow> 'a list) \<Rightarrow> bool" where
  "enumerates iter = (\<forall>xs. set (iter xs) = set xs \<and> length (iter xs) = length xs)"

text \<open>
  \<open>prev\<close> is a candidate for \<open>node\<close>: its tensor inputs are \<open>target\<close>, its dim is the
  value \<open>dim\<close>, and it dominates \<open>node\<close>.
\<close>

definition is_match :: "graph \<Rightarrow> nid \<Rightarrow> vid list \<Rightarrow> vid \<Rightarrow> nid \<Rightarrow> bool" where
  "is_match g node target dim prev =
     (case map_of (node_tab g) prev of
        None \<Rightarrow> False
      | Some p \<Rightarrow> inputs p = target @ [dim] \<and> isDominatedBy g node prev)"

text \<open>
  What \<^verbatim>\<open>handleCat\<close> has checked of every node it put into \<open>concated_outputs\<close>: the node
  has an input (its dim) and one output.
\<close>

definition cand_ok :: "graph \<Rightarrow> nid \<Rightarrow> bool" where
  "cand_ok g c =
     (case map_of (node_tab g) c of
        None \<Rightarrow> False
      | Some p \<Rightarrow> inputs p \<noteq> [] \<and> length (outputs p) = 1)"

definition output_of :: "graph \<Rightarrow> nid \<Rightarrow> vid" where
  "output_of g c = (case map_of (node_tab g) c of None \<Rightarrow> 0 | Some p \<Rightarrow> hd (outputs p))"

text \<open>The node recorded in \<open>concats_to_replace\<close> as the replacement of \<open>node\<close>.\<close>

definition substitution_of :: "elim_state \<Rightarrow> nid \<Rightarrow> node option" where
  "substitution_of st node =
     (case map_of (concats_to_replace st) node of
        None \<Rightarrow> None
      | Some new \<Rightarrow> map_of (node_tab (graph_of st)) new)"

section \<open>Example graphs\<close>

definition mk :: "kind \<Rightarrow> vid list \<Rightarrow> vid \<Rightarrow> node" where
  "mk k ins out = \<lparr>kind = k, inputs = ins, outputs = [out]\<rparr>"

definition tv :: "nid option \<Rightarrow> int list \<Rightarrow> val" where
  "tv p s = \<lparr>vnode = p, vtype = TensorType (Some s)\<rparr>"

text \<open>
  \<^verbatim>\<open>%11 = prim::Concat(%1, %2, %5)\<close>, \<^verbatim>\<open>%12 = prim::Concat(%1, %2, %3, %5)\<close>,
  \<^verbatim>\<open>%13 = prim::Concat(%11, %3, %4, %5)\<close>, \<^verbatim>\<open>return (%12, %13)\<close>, where \<^verbatim>\<open>%5\<close> is the
  constant 0 and \<^verbatim>\<open>%1\<close> to \<^verbatim>\<open>%4\<close> are inputs of the graph; then the graph after one
  run of the eliminator, and after two.
\<close>

definition G1 :: graph where
  "G1 = \<lparr>node_tab = [(5, mk (prim_Constant (IVInt 0)) [] 5), (11, mk prim_Concat [1, 2, 5] 11),
            (12, mk prim_Concat [1, 2, 3, 5] 12), (13, mk prim_Concat [11, 3, 4, 5] 13)],
          value_tab = [(1, tv None [2, 3]), (2, tv None [2, 3]), (3, tv None [2, 3]),
            (4, tv None [2, 3]), (5, \<lparr>vnode = Some 5, vtype = IntType\<rparr>),
            (11, tv (Some 11) [4, 3]), (12, tv (Some 12) [6, 3]), (13, tv (Some 13) [8, 3])],
          top_block = Block [Slot 5 [], Slot 11 [], Slot 12 [], Slot 13 []] [12, 13],
          next_unique = 20\<rparr>"

definition G1a :: graph where
  "G1a = \<lparr>node_tab = [(5, mk (prim_Constant (IVInt 0)) [] 5), (11, mk prim_Concat [1, 2, 5] 11),
             (13, mk prim_Concat [11, 3, 4, 5] 13), (20, mk prim_Concat [11, 3, 5] 20)],
           value_tab = [(1, tv None [2, 3]), (2, tv None [2, 3]), (3, tv None [2, 3]),
             (4, tv None [2, 3]), (5, \<lparr>vnode = Some 5, vtype = IntType\<rparr>),
             (11, tv (Some 11) [4, 3]), (13, tv (Some 13) [8, 3]), (20, tv (Some 20) [6, 3])],
           top_block = Block [Slot 5 [], Slot 11 [], Slot 20 [], Slot 13 []] [20, 13],
           next_unique = 21\<rparr>"

definition G1b :: graph where
  "G1b = \<lparr>node_tab = [(5, mk (prim_Constant (IVInt 0)) [] 5), (11, mk prim_Concat [1, 2, 5] 11),
             (20, mk prim_Concat [11, 3, 5] 20), (21, mk prim_Concat [20, 4, 5] 21)],
           value_tab = [(1, tv None [2, 3]), (2, tv None [2, 3]), (3, tv None [2, 3]),
             (4, tv None [2, 3]), (5, \<lparr>vnode = Some 5, vtype = IntType\<rparr>),
             (11, tv (Some 11) [4, 3]), (20, tv (Some 20) [6, 3]), (21, tv (Some 21) [8, 3])],
           top_block = Block [Slot 5 [], Slot 11 [], Slot 20 [], Slot 21 []] [20, 21],
           next_unique = 22\<rparr>"


text \<open>
  \<^verbatim>\<open>%10 = prim::ListConstruct(%1, %2)\<close>, \<^verbatim>\<open>%11 = aten::cat(%10, %5)\<close>,
  \<^verbatim>\<open>%12 = prim::ListConstruct(%2, %3)\<close>, \<^verbatim>\<open>%13 = aten::cat(%12, %5)\<close>,
  \<^verbatim>\<open>return (%11, %13)\<close>; then the graph after one run of the variadic promoter.
\<close>

definition G2 :: graph where
  "G2 = \<lparr>node_tab = [(5, mk (prim_Constant (IVInt 0)) [] 5),
            (10, mk prim_ListConstruct [1, 2] 10), (11, mk aten_cat [10, 5] 11),
            (12, mk prim_ListConstruct [2, 3] 12), (13, mk aten_cat [12, 5] 13)],
          value_tab = [(1, tv None [2, 3]), (2, tv None [2, 3]), (3, tv None [4, 3]),
            (5, \<lparr>vnode = Some 5, vtype = IntType\<rparr>), (10, \<lparr>vnode = Some 10, vtype = ListType\<rparr>),
            (11, tv (Some 11) [4, 3]), (12, \<lparr>vnode = Some 12, vtype = ListType\<rparr>),
            (13, tv (Some 13) [6, 3])],
          top_block = Block [Slot 5 [], Slot 10 [], Slot 11 [], Slot 12 [], Slot 13 []] [11, 13],
          next_unique = 20\<rparr>"

definition G2a :: graph where
  "G2a = \<lparr>node_tab = [(5, mk (prim_Constant (IVInt 0)) [] 5),
             (12, mk prim_ListConstruct [2, 3] 12), (13, mk aten_cat [12, 5] 13),
             (20, mk prim_Concat [1, 2, 5] 20)],
           value_tab = [(1, tv None [2, 3]), (2, tv None [2, 3]), (3, tv None [4, 3]),
             (5, \<lparr>vnode = Some 5, vtype = IntType\<rparr>), (12, \<lparr>vnode = Some 12, vtype = ListType\<rparr>),
             (13, tv (Some 13) [6, 3]), (20, \<lparr>vnode = Some 20, vtype = TensorType None\<rparr>)],
           top_block = Block [Slot 5 [], Slot 20 [], Slot 12 [], Slot 13 []] [20, 13],
           next_unique = 21\<rparr>"

text \<open>
  Two equal candidates: \<^verbatim>\<open>%11 = prim::Concat(%1, %2, %5)\<close>,
  \<^verbatim>\<open>%12 = prim::Concat(%1, %2, %5)\<close>, \<^verbatim>\<open>%13 = prim::Concat(%1, %2, %3, %5)\<close>,
  \<^verbatim>\<open>return (%11, %12, %13)\<close>; then the graph after the eliminator, run with a hash set
  that hands out its elements latest first.
\<close>

definition G5 :: graph where
  "G5 = \<lparr>node_tab = [(5, mk (prim_Constant (IVInt 0)) [] 5), (11, mk prim_Concat [1, 2, 5] 11),
            (12, mk prim_Concat [1, 2, 5] 12), (13, mk prim_Concat [1, 2, 3, 5] 13)],
          value_tab = [(1, tv None [2, 3]), (2, tv None [2, 3]), (3, tv None [2, 3]),
            (5, \<lparr>vnode = Some 5, vtype = IntType\<rparr>),
            (11, tv (Some 11) [4, 3]), (12, tv (Some 12) [4, 3]), (13, tv (Some 13) [6, 3])],
          top_block = Block [Slot 5 [], Slot 11 [], Slot 12 [], Slot 13 []] [11, 12, 13],
          next_unique = 20\<rparr>"

definition G5a :: graph where
  "G5a = \<lparr>node_tab = [(5, mk (prim_Constant (IVInt 0)) [] 5), (11, mk prim_Concat [1, 2, 5] 11),
             (12, mk prim_Concat [1, 2, 5] 12), (20, mk prim_Concat [12, 3, 5] 20)],
           value_tab = [(1, tv None [2, 3]), (2, tv None [2, 3]), (3, tv None [2, 3]),
             (5, \<lparr>vnode = Some 5, vtype = IntType\<rparr>),
             (11, tv (Some 11) [4, 3]), (12, tv (Some 12) [4, 3]), (20, tv (Some 20) [6, 3])],
           top_block = Block [Slot 5 [], Slot 11 [], Slot 12 [], Slot 20 []] [11, 12, 20],
           next_unique = 21\<rparr>"

definition st5 :: elim_state where
  "st5 = \<lparr>graph_of = G5, concated_outputs = [11, 12], concats_to_replace = []\<rparr>"

text \<open>
  The operands of an \<^verbatim>\<open>aten::cat\<close>: the inputs of the node that makes its list.
\<close>

definition cat_operands :: "graph \<Rightarrow> vid \<Rightarrow> vid list" where
  "cat_operands g list =
     (case value_node g list of
        None \<Rightarrow> []
      | Some l \<Rightarrow> (case map_of (node_tab g) l of None \<Rightarrow> [] | Some ln \<Rightarrow> inputs ln))"

text \<open>
  An \<^verbatim>\<open>aten::cat\<close> whose axis \<^verbatim>\<open>%4\<close> is an input of the graph and no constant.
\<close>

definition G7 :: graph where
  "G7 = \<lparr>node_tab = [(10, mk prim_ListConstruct [1, 2] 10), (11, mk aten_cat [10, 4] 11)],
          value_tab = [(1, tv None [2, 3]), (2, tv None [2, 3]),
            (4, \<lparr>vnode = None, vtype = IntType\<rparr>), (10, \<lparr>vnode = Some 10, vtype = ListType\<rparr>),
            (11, tv (Some 11) [4, 3])],
          top_block = Block [Slot 10 [], Slot 11 []] [11],
          next_unique = 20\<rparr>"

definition st7 :: expander_state where
  "st7 = \<lparr>egraph = G7, nodes_to_remove = [], replace_uses_with = [],
           copies_added = [], slices_added = []\<rparr>"


text \<open>The state in which \<^verbatim>\<open>run\<close> starts.\<close>

definition init_expander :: "graph \<Rightarrow> expander_state" where
  "init_expander g = \<lparr>egraph = g, nodes_to_remove = [], replace_uses_with = [],
             copies_added = [], slices_added = []\<rparr>"





text \<open>
  What an \<^verbatim>\<open>aten::slice\<close> made by \<^verbatim>\<open>expandCat\<close> selects: the constants that its \<open>start\<close> and
  \<open>end\<close> inputs hold; and the ranges of all the slices a run of \<^verbatim>\<open>expandCat\<close> has added, in
  the order in which it added them.
\<close>

definition slice_range :: "graph \<Rightarrow> nid \<Rightarrow> (int \<times> int) option" where
  "slice_range g s =
     (case map_of (node_tab g) s of
        None \<Rightarrow> None
      | Some n \<Rightarrow>
          (case inputs n of
             [buf, dim, start, end_v, step] \<Rightarrow>
               (case (constant_as_int g start, constant_as_int g end_v) of
                  (Some a, Some b) \<Rightarrow> Some (a, b)
                | _ \<Rightarrow> None)
           | _ \<Rightarrow> None))"

definition expanded_ranges :: "error + expander_state \<Rightarrow> error + (int \<times> int) option list" where
  "expanded_ranges r = bnd r (\<lambda>st. Inr (map (slice_range (egraph st)) (slices_added st)))"

text \<open>
  \<^verbatim>\<open>%10 = prim::ListConstruct(%1, %2)\<close>, \<^verbatim>\<open>%11 = aten::cat(%10, %5)\<close> along the axis 0. In
  \<open>G6\<close> both operands are one-dimensional tensors of \<open>2 ^ 30\<close> elements and the result has
  \<open>2 ^ 31\<close>; in \<open>G6s\<close> the operands are of shape \<open>[2, 3]\<close> and \<open>[4, 3]\<close>.
\<close>

definition G6 :: graph where
  "G6 = \<lparr>node_tab = [(5, mk (prim_Constant (IVInt 0)) [] 5),
            (10, mk prim_ListConstruct [1, 2] 10), (11, mk aten_cat [10, 5] 11)],
          value_tab = [(1, tv None [1073741824]), (2, tv None [1073741824]),
            (5, \<lparr>vnode = Some 5, vtype = IntType\<rparr>), (10, \<lparr>vnode = Some 10, vtype = ListType\<rparr>),
            (11, tv (Some 11) [2147483648])],
          top_block = Block [Slot 5 [], Slot 10 [], Slot 11 []] [11],
          next_unique = 20\<rparr>"

definition G6s :: graph where
  "G6s = \<lparr>node_tab = [(5, mk (prim_Constant (IVInt 0)) [] 5),
            (10, mk prim_ListConstruct [1, 2] 10), (11, mk aten_cat [10, 5] 11)],
          value_tab = [(1, tv None [2, 3]), (2, tv None [4, 3]),
            (5, \<lparr>vnode = Some 5, vtype = IntType\<rparr>), (10, \<lparr>vnode = Some 10, vtype = ListType\<rparr>),
            (11, tv (Some 11) [6, 3])],
          top_block = Block [Slot 5 [], Slot 10 [], Slot 11 []] [11],
          next_unique = 20\<rparr>"






subsection \<open>A concatenation of two tensors fed by a rewritten concatenation\<close>

text \<open>
  \<open>G9\<close> holds three concatenations along axis 0: node 11 joins the values 1 and 2, node 12
  joins 1, 2 and 3, and node 13 joins the output of node 12 with the value 4.  \<open>G9a\<close> is the
  graph in which node 12 has been replaced by node 20, which joins the output of node 11 with
  the value 3, and node 13 reads the output of node 20.
\<close>

definition G9 :: graph where
  "G9 = \<lparr>node_tab = [(5, mk (prim_Constant (IVInt 0)) [] 5), (11, mk prim_Concat [1, 2, 5] 11),
            (12, mk prim_Concat [1, 2, 3, 5] 12), (13, mk prim_Concat [12, 4, 5] 13)],
          value_tab = [(1, tv None [2, 3]), (2, tv None [2, 3]), (3, tv None [2, 3]),
            (4, tv None [2, 3]), (5, \<lparr>vnode = Some 5, vtype = IntType\<rparr>),
            (11, tv (Some 11) [4, 3]), (12, tv (Some 12) [6, 3]), (13, tv (Some 13) [8, 3])],
          top_block = Block [Slot 5 [], Slot 11 [], Slot 12 [], Slot 13 []] [13],
          next_unique = 20\<rparr>"

definition G9a :: graph where
  "G9a = \<lparr>node_tab = [(5, mk (prim_Constant (IVInt 0)) [] 5), (11, mk prim_Concat [1, 2, 5] 11),
            (13, mk prim_Concat [20, 4, 5] 13), (20, mk prim_Concat [11, 3, 5] 20)],
          value_tab = [(1, tv None [2, 3]), (2, tv None [2, 3]), (3, tv None [2, 3]),
            (4, tv None [2, 3]), (5, \<lparr>vnode = Some 5, vtype = IntType\<rparr>),
            (11, tv (Some 11) [4, 3]), (13, tv (Some 13) [8, 3]), (20, tv (Some 20) [6, 3])],
          top_block = Block [Slot 5 [], Slot 11 [], Slot 20 [], Slot 13 []] [13],
          next_unique = 21\<rparr>"


text \<open>
  \<open>kept i n st\<close>: the node \<open>n\<close> is still stored under the identifier \<open>i\<close>, the identifier is
  older than every node the pass may still create, and no substitution is recorded for it.
\<close>

definition kept :: "nid \<Rightarrow> node \<Rightarrow> elim_state \<Rightarrow> bool" where
  "kept i n st = (i < next_unique (graph_of st)
      \<and> map_of (node_tab (graph_of st)) i = Some n
      \<and> i \<notin> fst ` set (concats_to_replace st))"


subsection \<open>Reading an expansion off the graph\<close>

text \<open>
  The ranges the operands are to get: each starts where the one before it ends, the first
  at \<open>s\<close>, and is as long as the extent of its operand.
\<close>

fun ranges :: "int \<Rightarrow> int list \<Rightarrow> (int \<times> int) list" where
  "ranges s [] = []"
| "ranges s (e # es) = (s, s + e) # ranges (s + e) es"

text \<open>
  A graph is well formed when every identifier in its tables, every producer of a value and
  every node of its blocks is older than the next identifier, so that a node made by
  \<^verbatim>\<open>Graph::create\<close> is new.
\<close>

definition well_formed :: "graph \<Rightarrow> bool" where
  "well_formed g = ((\<forall>k n. map_of (node_tab g) k = Some n \<longrightarrow> k < next_unique g)
     \<and> (\<forall>k x. map_of (value_tab g) k = Some x \<longrightarrow>
            k < next_unique g \<and> (\<forall>i. vnode x = Some i \<longrightarrow> i < next_unique g))
     \<and> (\<forall>i \<in> set (ids_of_block (top_block g)). i < next_unique g))"

text \<open>
  The graph after \<^verbatim>\<open>create\<close> and \<^verbatim>\<open>insertBefore(node)\<close> of the new node.
\<close>

definition emit_before :: "graph \<Rightarrow> kind \<Rightarrow> vid list \<Rightarrow> jtype \<Rightarrow> nid \<Rightarrow> graph" where
  "emit_before g k ins t node =
     (snd (create g k ins t))\<lparr>top_block := insert_block (Slot (next_unique g) []) node (top_block g)\<rparr>"

text \<open>
  \<open>g'\<close> extends \<open>g\<close> when it has every node and value of \<open>g\<close> as it was, and every node of
  the blocks of \<open>g\<close> in its blocks.
\<close>

definition extends :: "graph \<Rightarrow> graph \<Rightarrow> bool" where
  "extends g g' = (next_unique g \<le> next_unique g'
     \<and> (\<forall>k < next_unique g. map_of (node_tab g') k = map_of (node_tab g) k
                            \<and> map_of (value_tab g') k = map_of (value_tab g) k)
     \<and> set (ids_of_block (top_block g)) \<subseteq> set (ids_of_block (top_block g')))"

text \<open>
  What a node is, read from the graph: the buffer, the axis and the step of an
  \<^verbatim>\<open>aten::slice\<close>; the destination and the source of an \<^verbatim>\<open>aten::copy_\<close>; the constants in
  the size list of the \<^verbatim>\<open>aten::empty\<close> that makes a value.
\<close>

definition slice_of :: "graph \<Rightarrow> nid \<Rightarrow> (vid \<times> vid \<times> vid) option" where
  "slice_of g s =
     (case map_of (node_tab g) s of
        None \<Rightarrow> None
      | Some n \<Rightarrow>
          (case (kind n, inputs n) of
             (aten_slice, [buf, dim, start, end_v, step_v]) \<Rightarrow> Some (buf, dim, step_v)
           | _ \<Rightarrow> None))"

definition copy_of :: "graph \<Rightarrow> nid \<Rightarrow> (vid \<times> vid) option" where
  "copy_of g c =
     (case map_of (node_tab g) c of
        None \<Rightarrow> None
      | Some n \<Rightarrow>
          (case (kind n, inputs n) of
             (aten_copy, [dst, src]) \<Rightarrow> Some (dst, src)
           | _ \<Rightarrow> None))"

definition alloc_sizes :: "graph \<Rightarrow> vid \<Rightarrow> int option list option" where
  "alloc_sizes g b =
     (case value_node g b of
        None \<Rightarrow> None
      | Some a \<Rightarrow>
          (case map_of (node_tab g) a of
             None \<Rightarrow> None
           | Some n \<Rightarrow>
               (case (kind n, inputs n) of
                  (aten_empty, sz # rest) \<Rightarrow>
                    if value_node_kind g sz = prim_ListConstruct
                    then Some (map (constant_as_int g) (cat_operands g sz)) else None
                | _ \<Rightarrow> None)))"
section \<open>Basic facts\<close>

lemma bnd_Inr [simp]: "bnd (Inr x) f = f x"
  by (simp add: bnd_def)

lemma bnd_Inl [simp]: "bnd (Inl e) f = Inl e"
  by (simp add: bnd_def)

lemma enumerates_Nil: "enumerates iter \<Longrightarrow> iter [] = []"
  unfolding enumerates_def by (erule allE[of _ "[]"]) simp

lemma enumerates_id: "enumerates (\<lambda>xs. xs)"
  by (simp add: enumerates_def)

lemma enumerates_rev: "enumerates rev"
  by (simp add: enumerates_def)

lemma slice_butlast: "xs \<noteq> [] \<Longrightarrow> slice xs 0 (size_t_minus_1 (length xs)) = Inr (butlast xs)"
  by (simp add: slice_def size_t_minus_1_def butlast_conv_take)

lemma slice_tl: "xs \<noteq> [] \<Longrightarrow> slice xs (Suc 0) (size_t_minus_1 (length xs)) = Inr (tl xs)"
  by (cases xs) (simp_all add: slice_def size_t_minus_1_def)

lemma slice_Nil: "slice [] 0 (size_t_minus_1 (length [])) = Inl CheckFailed"
  by (simp add: slice_def size_t_minus_1_def)

lemma equal_iff: "equal a b \<longleftrightarrow> a = b"
  by (auto simp: equal_def list_all2_eq[symmetric])

section \<open>The common-input eliminator\<close>

lemma handleBlock_no_Concat:
  "(\<forall>i \<in> set (concat (map ids_of_slot ns)).
      \<exists>n. map_of (node_tab (graph_of st)) i = Some n \<and> kind n \<noteq> prim_Concat)
   \<Longrightarrow> Eliminator_handleBlock iter_set hw ns st = Inr st"
  "(\<forall>i \<in> set (concat (map ids_of_block bs)).
      \<exists>n. map_of (node_tab (graph_of st)) i = Some n \<and> kind n \<noteq> prim_Concat)
   \<Longrightarrow> Eliminator_handleBlocks iter_set hw bs st = Inr st"
proof (induction iter_set hw ns st and iter_set hw bs st
    rule: Eliminator_handleBlock_Eliminator_handleBlocks.induct)
  case (1 iter_set hasWriters st)
  show ?case by simp
next
  case (2 iter_set hasWriters s rest st)
  obtain i bs where s: "s = Slot i bs" by (cases s)
  from "2.prems" s obtain n where n: "map_of (node_tab (graph_of st)) i = Some n"
    "kind n \<noteq> prim_Concat" by auto
  have d: "deref (graph_of st) (slot_node s) = Inr n" using n s by (simp add: deref_def)
  have b: "Eliminator_handleBlocks iter_set hasWriters (slot_blocks s) st = Inr st"
    using "2.IH"(1)[of st] "2.prems" s by auto
  have r: "Eliminator_handleBlock iter_set hasWriters rest st = Inr st"
    using "2.IH"(2)[of st] "2.prems" s by auto
  show ?case using d n b r by simp
next
  case (3 iter_set hasWriters st)
  show ?case by simp
next
  case (4 iter_set hasWriters b bs st)
  obtain ns rs where bb: "b = Block ns rs" by (cases b)
  have h: "Eliminator_handleBlock iter_set hasWriters (nodes b) st = Inr st"
    using "4.IH"(1) "4.prems" bb by auto
  have t: "Eliminator_handleBlocks iter_set hasWriters bs st = Inr st"
    using "4.IH"(2)[of st] "4.prems" h by auto
  show ?case using h t by simp
qed

text \<open>
  C10. The eliminator handles \<^verbatim>\<open>prim::Concat\<close> nodes only: on a graph none of whose
  nodes is a \<^verbatim>\<open>prim::Concat\<close> (so every concatenation is an \<^verbatim>\<open>aten::cat\<close> with a list
  input), \<^verbatim>\<open>EliminateConcatCommonInputs\<close> returns false and leaves the graph as it was.
\<close>

theorem Eliminator_ignores_list_form: 
  assumes "enumerates iter_map"
    and "\<forall>i \<in> set (ids_of_block (top_block g)).
          \<exists>n. map_of (node_tab g) i = Some n \<and> kind n \<noteq> prim_Concat"
  shows "EliminateConcatCommonInputs iter_set iter_map hasWriters g = Inr (False, g)"
proof -
  obtain ns rs where b: "top_block g = Block ns rs" by (cases "top_block g")
  have "Eliminator_handleBlock iter_set hasWriters (nodes (top_block g))
            \<lparr>graph_of = g, concated_outputs = [], concats_to_replace = []\<rparr>
        = Inr \<lparr>graph_of = g, concated_outputs = [], concats_to_replace = []\<rparr>"
    using assms(2) b by (intro handleBlock_no_Concat(1)) simp
  then show ?thesis
    using enumerates_Nil[OF assms(1)]
    by (simp add: EliminateConcatCommonInputs_def Eliminator_run_def postprocess_def)
qed

theorem Eliminator_ignores_list_form_witness:
  "EliminateConcatCommonInputs rev rev (\<lambda>v. False) G2 = Inr (False, G2)"
  using Eliminator_ignores_list_form[of rev G2 rev "\<lambda>v. False"] enumerates_rev
  by (simp add: G2_def mk_def)

lemma search_prev_find:
  "\<forall>c\<in>set cs. cand_ok g c \<Longrightarrow>
   search_prev g node target dim cs = Inr (find (is_match g node target dim) cs)"
proof (induction cs)
  case Nil
  show ?case by simp
next
  case (Cons c cs)
  from Cons.prems obtain p where p: "map_of (node_tab g) c = Some p" "inputs p \<noteq> []"
    by (auto simp: cand_ok_def split: option.splits)
  have m: "is_match g node target dim c
           = (butlast (inputs p) = target \<and> last (inputs p) = dim \<and> isDominatedBy g node c)"
    using p by (auto simp: is_match_def snoc_eq_iff_butlast)
  show ?case using Cons p m
    by (auto simp: deref_def slice_butlast equal_iff Let_def)
qed

lemma handleCat_find:
  assumes n: "map_of (node_tab (graph_of st)) node = Some n"
    and ins: "inputs n = tensors @ [dim]" and len: "2 < length tensors"
    and out: "outputs n = [out]"
    and ok: "\<forall>c \<in> set (concated_outputs st). cand_ok (graph_of st) c"
    and en: "enumerates iter_set"
  shows "handleCat iter_set hasWriters node st =
     (let st1 = (if \<not> hasWriters out
                 then st\<lparr>concated_outputs := concated_outputs st @ [node]\<rparr> else st);
          cs = iter_set (concated_outputs st1)
      in case find (is_match (graph_of st) node (butlast tensors) dim) cs of
           Some prev \<Rightarrow>
             record_replacement st1 node [output_of (graph_of st) prev, last tensors, dim]
         | None \<Rightarrow>
             (case find (is_match (graph_of st) node (tl tensors) dim) cs of
                Some prev \<Rightarrow>
                  record_replacement st1 node [hd tensors, output_of (graph_of st) prev, dim]
              | None \<Rightarrow> Inr st1))"
proof -
  define st1 where "st1 = (if \<not> hasWriters out
                 then st\<lparr>concated_outputs := concated_outputs st @ [node]\<rparr> else st)"
  have g1: "graph_of st1 = graph_of st" by (simp add: st1_def)
  have nok: "cand_ok (graph_of st) node" using n ins out by (simp add: cand_ok_def)
  have ok1: "\<forall>c \<in> set (iter_set (concated_outputs st1)). cand_ok (graph_of st) c"
    using ok nok en by (auto simp: st1_def enumerates_def)
  have po: "\<And>t prev. find (is_match (graph_of st) node t dim) (iter_set (concated_outputs st1)) = Some prev
      \<Longrightarrow> prev_output (graph_of st) prev = Inr (output_of (graph_of st) prev)"
  proof -
    fix t prev
    assume "find (is_match (graph_of st) node t dim) (iter_set (concated_outputs st1)) = Some prev"
    then have "prev \<in> set (iter_set (concated_outputs st1))"
      by (auto simp: find_Some_iff)
    then have "cand_ok (graph_of st) prev" using ok1 by blast
    then show "prev_output (graph_of st) prev = Inr (output_of (graph_of st) prev)"
      by (auto simp: cand_ok_def prev_output_def deref_def node_output_def output_of_def
            length_Suc_conv split: option.splits list.splits)
  qed
  have s1: "slice (inputs n) 0 (size_t_minus_1 (length (inputs n))) = Inr tensors"
    using slice_butlast[of "inputs n"] ins by simp
  have l1: "last (inputs n) = dim" using ins by simp
  have t0: "tensors \<noteq> []" using len by auto
  have l2: "\<not> length tensors \<le> 2" using len by simp
  note s2 = slice_butlast[OF t0] and s3 = slice_tl[OF t0]
  show ?thesis
  proof (cases "hasWriters out")
    case True
    then have e: "st1 = st" by (simp add: st1_def)
    show ?thesis
      unfolding handleCat_def
      using n out True po[unfolded e]
      by (simp add: deref_def s1 l1 l2 s2 s3 node_output_def Let_def
            search_prev_find[OF ok1[unfolded e]] split: option.splits)
  next
    case False
    then have e: "st1 = st\<lparr>concated_outputs := concated_outputs st @ [node]\<rparr>"
      by (simp add: st1_def)
    have ok2: "\<forall>c\<in>set (iter_set (concated_outputs st @ [node])). cand_ok (graph_of st) c"
      using ok1 by (simp add: e)
    show ?thesis
      unfolding handleCat_def
      using n out False po[unfolded e, simplified]
      by (simp add: deref_def s1 l1 l2 s2 s3 node_output_def Let_def
            search_prev_find[OF ok2] split: option.splits)
  qed
qed

lemma record_replacement_result:
  assumes n: "map_of (node_tab (graph_of s1)) node = Some n" and out: "outputs n = [out]"
    and key: "node \<notin> fst ` set (concats_to_replace s1)"
  shows "\<exists>st'. record_replacement s1 node new_inputs = Inr st'
      \<and> substitution_of st' node
          = Some \<lparr>kind = prim_Concat, inputs = new_inputs, outputs = [next_unique (graph_of s1)]\<rparr>
      \<and> value_type (graph_of st') (next_unique (graph_of s1)) = value_type (graph_of s1) out
      \<and> concats_to_replace st'
          = concats_to_replace s1 @ [(node, next_unique (graph_of s1))]"
proof -
  have k: "map_of (concats_to_replace s1) node = None"
    using key by (simp add: map_of_eq_None_iff)
  show ?thesis
    using n out k
    by (simp add: record_replacement_def deref_def node_output_def create_def Let_def
          substitution_of_def update_conv' value_type_def map_add_def)
qed





text \<open>
  C5 as amended. Among the recorded candidates that match and dominate, the one used is
  the first in the order in which the hash set \<open>concated_outputs\<close> hands out its elements
  (\<open>iter_set\<close>), which need not be the order of the traversal; a candidate for the prefix
  is used whenever there is one, and only otherwise a candidate for the suffix.
\<close>

theorem handleCat_first_in_iteration_order:
  assumes n: "map_of (node_tab (graph_of st)) node = Some n"
    and ins: "inputs n = tensors @ [dim]" and len: "2 < length tensors"
    and out: "outputs n = [out]"
    and ok: "\<forall>c \<in> set (concated_outputs st). cand_ok (graph_of st) c"
    and en: "enumerates iter_set"
    and key: "node \<notin> fst ` set (concats_to_replace st)"
  shows "\<exists>st'. handleCat iter_set hasWriters node st = Inr st' \<and>
     map_option inputs (substitution_of st' node) =
      (let cs = iter_set (if hasWriters out then concated_outputs st
                          else concated_outputs st @ [node])
       in case find (is_match (graph_of st) node (butlast tensors) dim) cs of
            Some prev \<Rightarrow> Some [output_of (graph_of st) prev, last tensors, dim]
          | None \<Rightarrow>
              (case find (is_match (graph_of st) node (tl tensors) dim) cs of
                 Some prev \<Rightarrow> Some [hd tensors, output_of (graph_of st) prev, dim]
               | None \<Rightarrow> None))"
proof -
  let ?g = "graph_of st"
  let ?st1 = "if \<not> hasWriters out
                 then st\<lparr>concated_outputs := concated_outputs st @ [node]\<rparr> else st"
  let ?cs = "iter_set (if hasWriters out then concated_outputs st else concated_outputs st @ [node])"
  have cs: "iter_set (concated_outputs ?st1) = ?cs" by simp
  have g1: "graph_of ?st1 = ?g" by simp
  have n1: "map_of (node_tab (graph_of ?st1)) node = Some n" using n by simp
  have k1: "node \<notin> fst ` set (concats_to_replace ?st1)" using key by simp
  note rr = record_replacement_result[OF n1 out k1, unfolded g1]
  note hc = handleCat_find[OF n ins len out ok en, of hasWriters, unfolded Let_def cs]
  have "map_of (concats_to_replace st) node = None"
    using key by (simp add: map_of_eq_None_iff)
  then have none: "substitution_of ?st1 node = None"
    by (simp add: substitution_of_def)
  show ?thesis
  proof (cases "find (is_match ?g node (butlast tensors) dim) ?cs")
    case (Some p)
    from rr[of "[output_of ?g p, last tensors, dim]"] Some hc show ?thesis
      by (auto simp: Let_def)
  next
    case None
    show ?thesis
    proof (cases "find (is_match ?g node (tl tensors) dim) ?cs")
      case (Some p)
      from rr[of "[hd tensors, output_of ?g p, dim]"] Some None hc show ?thesis
        by (auto simp: Let_def)
    next
      case None2: None
      show ?thesis using None None2 hc none by (auto simp: Let_def)
    qed
  qed
qed

theorem handleCat_first_in_iteration_order_witness:
  "\<exists>st'. handleCat rev (\<lambda>v. False) 13 st5 = Inr st'
      \<and> map_option inputs (substitution_of st' 13) = Some [12, 3, 5]"
proof -
  have n: "map_of (node_tab (graph_of st5)) 13 = Some (mk prim_Concat [1, 2, 3, 5] 13)"
    by (simp add: st5_def G5_def)
  have ins: "inputs (mk prim_Concat [1, 2, 3, 5] 13) = [1, 2, 3] @ [5]" by (simp add: mk_def)
  have len: "2 < length [1, 2, 3::nat]" by simp
  have out: "outputs (mk prim_Concat [1, 2, 3, 5] 13) = [13]" by (simp add: mk_def)
  have ok: "\<forall>c \<in> set (concated_outputs st5). cand_ok (graph_of st5) c"
    by (simp add: st5_def G5_def cand_ok_def mk_def)
  have key: "13 \<notin> fst ` set (concats_to_replace st5)" by (simp add: st5_def)
  from handleCat_first_in_iteration_order[OF n ins len out ok enumerates_rev key, of "\<lambda>v. False"]
  show ?thesis
    by (simp add: st5_def G5_def is_match_def mk_def isDominatedBy_def contains_node_def
          output_of_def)
qed

text \<open>
  The claim as stated fails: in \<open>G5\<close> the traversal records \<^verbatim>\<open>%11\<close> before \<^verbatim>\<open>%12\<close>, both
  match the prefix of \<^verbatim>\<open>%13\<close> and dominate it, and with a hash set that hands out the
  latest element first the replacement is built from \<^verbatim>\<open>%12\<close>.
\<close>

theorem first_candidate_counterexample:
  "EliminateConcatCommonInputs rev rev (\<lambda>v. False) G5 = Inr (True, G5a)
   \<and> ids_of_block (top_block G5) = [5, 11, 12, 13]
   \<and> is_match G5 13 [1, 2] 5 11 \<and> is_match G5 13 [1, 2] 5 12
   \<and> map_option inputs (map_of (node_tab G5a) 20) = Some [12, 3, 5]"
  by code_simp


subsection \<open>Concatenations of at most two tensors\<close>

lemma handleCat_two_operands:
  assumes n: "map_of (node_tab (graph_of st)) node = Some n"
    and ins: "inputs n = tensors @ [dim]" and len: "length tensors \<le> 2"
    and out: "outputs n = [out]"
  shows "handleCat iter_set hasWriters node st
       = Inr (st\<lparr>concated_outputs := (if hasWriters out then concated_outputs st
                                       else concated_outputs st @ [node])\<rparr>)"
proof -
  have s1: "slice (inputs n) 0 (size_t_minus_1 (length (inputs n))) = Inr tensors"
    using slice_butlast[of "inputs n"] ins by simp
  show ?thesis
    unfolding handleCat_def using n out len
    by (simp add: deref_def s1 node_output_def Let_def)
qed

lemma handleCat_kept:
  assumes h: "handleCat iter_set hw node st = Inr st'" and inv: "kept i n st"
    and len: "length (inputs n) \<le> 3"
  shows "kept i n st'"
proof (cases "node = i")
  case True
  have "length (butlast (inputs n)) \<le> 2" using len by simp
  with h inv True show ?thesis
    unfolding handleCat_def kept_def
    by (auto simp: deref_def bnd_def Let_def slice_def size_t_minus_1_def butlast_conv_take
          split: sum.splits if_splits)
next
  case False
  with h inv show ?thesis
    unfolding handleCat_def record_replacement_def kept_def
    by (auto simp: bnd_def Let_def create_def update_conv'
          split: sum.splits option.splits if_splits prod.splits)
qed

lemma handleBlock_kept:
  "Eliminator_handleBlock iter_set hw ns st = Inr st' \<Longrightarrow> kept i n st \<Longrightarrow>
     length (inputs n) \<le> 3 \<Longrightarrow> kept i n st'"
  "Eliminator_handleBlocks iter_set hw bs st = Inr st' \<Longrightarrow> kept i n st \<Longrightarrow>
     length (inputs n) \<le> 3 \<Longrightarrow> kept i n st'"
proof (induction iter_set hw ns st and iter_set hw bs st arbitrary: st' and st'
    rule: Eliminator_handleBlock_Eliminator_handleBlocks.induct)
  case (1 iter_set hasWriters st)
  then show ?case by simp
next
  case (2 iter_set hasWriters s rest st)
  from "2.prems"(1) obtain m :: node and st1 st2 where
    h: "(if kind m = prim_Concat then handleCat iter_set hasWriters (slot_node s) st else Inr st) = Inr st1"
    and b: "Eliminator_handleBlocks iter_set hasWriters (slot_blocks s) st1 = Inr st2"
    and r: "Eliminator_handleBlock iter_set hasWriters rest st2 = Inr st'"
    by (auto simp: bnd_def split: sum.splits)
  have "kept i n st1"
    using h "2.prems"(2,3) handleCat_kept[of iter_set hasWriters "slot_node s" st st1 i n]
    by (auto split: if_splits)
  from "2.IH"(2)[OF r "2.IH"(1)[OF b this "2.prems"(3)] "2.prems"(3)] show ?case .
next
  case (3 iter_set hasWriters st)
  then show ?case by simp
next
  case (4 iter_set hasWriters b bs st)
  from "4.prems"(1) obtain st1 where
    h: "Eliminator_handleBlock iter_set hasWriters (nodes b) st = Inr st1"
    and r: "Eliminator_handleBlocks iter_set hasWriters bs st1 = Inr st'"
    by (auto simp: bnd_def split: sum.splits)
  from "4.IH"(2)[OF r "4.IH"(1)[OF h "4.prems"(2,3)] "4.prems"(3)] show ?case .
qed

lemma map_of_rauw:
  "map_of (node_tab (replaceAllUsesWith g old new)) i
     = map_option (\<lambda>n. n\<lparr>inputs := map (\<lambda>v. if v = old then new else v) (inputs n)\<rparr>)
         (map_of (node_tab g) i)"
proof -
  have "\<And>tab. map_of
        (map (\<lambda>p. (fst p, (snd p)\<lparr>inputs := map (\<lambda>v. if v = old then new else v) (inputs (snd p))\<rparr>)) tab) i
      = map_option (\<lambda>n. n\<lparr>inputs := map (\<lambda>v. if v = old then new else v) (inputs n)\<rparr>) (map_of tab i)"
    by (induct_tac tab) auto
  then show ?thesis by (simp add: replaceAllUsesWith_def)
qed

lemma postprocess_loop_kept:
  "postprocess_loop xs ch g = Inr (c, g') \<Longrightarrow> i \<notin> fst ` set xs \<Longrightarrow>
   map_of (node_tab g) i = Some m \<Longrightarrow>
   \<exists>m'. map_of (node_tab g') i = Some m' \<and> kind m' = kind m \<and> outputs m' = outputs m
        \<and> length (inputs m') = length (inputs m)"
proof (induction xs ch g arbitrary: m rule: postprocess_loop.induct)
  case (1 changed g)
  then show ?case by simp
next
  case (2 curr_node new_node rest changed g)
  from "2.prems"(1) obtain g1 curr_out new_out g2 where
    g1: "insertBefore g new_node curr_node = Inr g1"
    and co: "bnd (deref g1 curr_node) node_output = Inr curr_out"
    and no: "bnd (deref g1 new_node) node_output = Inr new_out"
    and g2: "destroy (replaceAllUsesWith g1 curr_out new_out) curr_node = Inr g2"
    and r: "postprocess_loop rest True g2 = Inr (c, g')"
    by (auto simp: bnd_def split: sum.splits)
  have ne: "curr_node \<noteq> i" using "2.prems"(2) by auto
  have t1: "node_tab g1 = node_tab g" using g1 by (auto simp: insertBefore_def split: if_splits)
  have "map_of (node_tab g2) i
          = Some (m\<lparr>inputs := map (\<lambda>v. if v = curr_out then new_out else v) (inputs m)\<rparr>)"
    using g2 ne "2.prems"(3) t1
    by (auto simp: destroy_def bnd_def delete_conv' map_of_rauw split: sum.splits if_splits)
  from "2.IH"[OF r _ this] "2.prems"(2) show ?case by auto
qed

text \<open>
  C9 as amended.  A concatenation node with at most two tensor operands never gets a
  substitution: whatever earlier concatenations are recorded, \<open>handleCat\<close> leaves the graph and
  the recorded substitutions as they are and only registers the node as a candidate (when its
  output has no writers).  When the whole pass returns, the node is still in the graph under
  the same identifier, with the same kind, the same output and the same number of operands;
  only the operands themselves may have been redirected, from the output of a rewritten
  concatenation to the output of its substitute.
\<close>

theorem two_operand_node_is_kept:
  assumes n: "map_of (node_tab g) i = Some n"
    and ins: "inputs n = tensors @ [dim]" and len: "length tensors \<le> 2"
    and out: "outputs n = [out]"
    and fresh: "i < next_unique g"
    and en: "enumerates iter_map"
  shows "(\<forall>st :: elim_state. map_of (node_tab (graph_of st)) i = Some n \<longrightarrow>
            handleCat iter_set hasWriters i st
              = Inr (st\<lparr>concated_outputs := (if hasWriters out then concated_outputs st
                                             else concated_outputs st @ [i])\<rparr>))
       \<and> (\<forall>changed g'.
            EliminateConcatCommonInputs iter_set iter_map hasWriters g = Inr (changed, g') \<longrightarrow>
            (\<exists>n'. map_of (node_tab g') i = Some n' \<and> kind n' = kind n \<and> outputs n' = [out]
                 \<and> length (inputs n') = length (inputs n)))"
proof (intro conjI allI impI)
  fix st :: elim_state
  assume "map_of (node_tab (graph_of st)) i = Some n"
  from handleCat_two_operands[OF this ins len out]
  show "handleCat iter_set hasWriters i st
              = Inr (st\<lparr>concated_outputs := (if hasWriters out then concated_outputs st
                                             else concated_outputs st @ [i])\<rparr>)" .
next
  fix changed g'
  assume r: "EliminateConcatCommonInputs iter_set iter_map hasWriters g = Inr (changed, g')"
  then obtain st where
    h: "Eliminator_handleBlock iter_set hasWriters (nodes (top_block g))
            \<lparr>graph_of = g, concated_outputs = [], concats_to_replace = []\<rparr> = Inr st"
    and p: "postprocess_loop (iter_map (concats_to_replace st)) False (graph_of st) = Inr (changed, g')"
    by (auto simp: EliminateConcatCommonInputs_def Eliminator_run_def postprocess_def bnd_def
          split: sum.splits)
  have l3: "length (inputs n) \<le> 3" using ins len by simp
  have "kept i n \<lparr>graph_of = g, concated_outputs = [], concats_to_replace = []\<rparr>"
    using n fresh by (simp add: kept_def)
  from handleBlock_kept(1)[OF h this l3] have k: "kept i n st" .
  then have "i \<notin> fst ` set (iter_map (concats_to_replace st))"
    using en by (simp add: kept_def enumerates_def)
  from postprocess_loop_kept[OF p this] k out
  show "\<exists>n'. map_of (node_tab g') i = Some n' \<and> kind n' = kind n \<and> outputs n' = [out]
                 \<and> length (inputs n') = length (inputs n)"
    by (auto simp: kept_def)
qed

theorem two_operand_node_is_kept_witness:
  "handleCat (\<lambda>xs. xs) (\<lambda>v. False) 13
       \<lparr>graph_of = G9, concated_outputs = [11, 12], concats_to_replace = [(12, 20)]\<rparr>
     = Inr \<lparr>graph_of = G9, concated_outputs = [11, 12, 13], concats_to_replace = [(12, 20)]\<rparr>
   \<and> (\<exists>n'. map_of (node_tab G9a) 13 = Some n' \<and> kind n' = prim_Concat \<and> outputs n' = [13]
          \<and> length (inputs n') = 3)"
proof -
  have n: "map_of (node_tab G9) 13 = Some (mk prim_Concat [12, 4, 5] 13)"
    by (simp add: G9_def)
  have ins: "inputs (mk prim_Concat [12, 4, 5] 13) = [12, 4] @ [5]" by (simp add: mk_def)
  have len: "length [12, 4::nat] \<le> 2" by simp
  have out: "outputs (mk prim_Concat [12, 4, 5] 13) = [13]" by (simp add: mk_def)
  have fresh: "13 < next_unique G9" by (simp add: G9_def)
  have r: "EliminateConcatCommonInputs (\<lambda>xs. xs) (\<lambda>xs. xs) (\<lambda>v. False) G9 = Inr (True, G9a)"
    by code_simp
  from two_operand_node_is_kept[OF n ins len out fresh enumerates_id, of "\<lambda>xs. xs" "\<lambda>v. False"] r n
  show ?thesis by (auto simp: mk_def)
qed

text \<open>
  The node is not left untouched by the pass, though: in \<open>G9\<close> the node 13 has two tensor
  operands, and its first operand is redirected from the output of node 12 to the output of
  the substitute node 20.
\<close>

theorem two_operand_node_counterexample:
  "EliminateConcatCommonInputs (\<lambda>xs. xs) (\<lambda>xs. xs) (\<lambda>v. False) G9 = Inr (True, G9a)
   \<and> map_of (node_tab G9) 13 = Some \<lparr>kind = prim_Concat, inputs = [12, 4, 5], outputs = [13]\<rparr>
   \<and> map_of (node_tab G9a) 13 = Some \<lparr>kind = prim_Concat, inputs = [20, 4, 5], outputs = [13]\<rparr>"
  by code_simp

section \<open>Running a pass twice\<close>

lemma handleCat_change:
  "handleCat iter_set hw node st = Inr st' \<Longrightarrow>
     (graph_of st' = graph_of st \<and> concats_to_replace st' = concats_to_replace st)
     \<or> length (concats_to_replace st') = Suc (length (concats_to_replace st))"
  unfolding handleCat_def record_replacement_def
  by (auto simp: bnd_def Let_def create_def split: sum.splits option.splits if_splits prod.splits)

lemma handleBlock_change:
  "Eliminator_handleBlock iter_set hw ns st = Inr st' \<Longrightarrow>
     length (concats_to_replace st) \<le> length (concats_to_replace st') \<and>
     (length (concats_to_replace st') = length (concats_to_replace st)
        \<longrightarrow> graph_of st' = graph_of st)"
  "Eliminator_handleBlocks iter_set hw bs st = Inr st' \<Longrightarrow>
     length (concats_to_replace st) \<le> length (concats_to_replace st') \<and>
     (length (concats_to_replace st') = length (concats_to_replace st)
        \<longrightarrow> graph_of st' = graph_of st)"
proof (induction iter_set hw ns st and iter_set hw bs st arbitrary: st' and st'
    rule: Eliminator_handleBlock_Eliminator_handleBlocks.induct)
  case (1 iter_set hasWriters st)
  then show ?case by simp
next
  case (2 iter_set hasWriters s rest st)
  from "2.prems" obtain n st1 st2 where
    d: "deref (graph_of st) (slot_node s) = Inr n"
    and h: "(if kind n = prim_Concat then handleCat iter_set hasWriters (slot_node s) st else Inr st) = Inr st1"
    and b: "Eliminator_handleBlocks iter_set hasWriters (slot_blocks s) st1 = Inr st2"
    and r: "Eliminator_handleBlock iter_set hasWriters rest st2 = Inr st'"
    by (auto simp: bnd_def split: sum.splits)
  have c1: "length (concats_to_replace st) \<le> length (concats_to_replace st1) \<and>
     (length (concats_to_replace st1) = length (concats_to_replace st)
        \<longrightarrow> graph_of st1 = graph_of st)"
    using h handleCat_change[of iter_set hasWriters "slot_node s" st st1]
    by (auto split: if_splits)
  note c2 = "2.IH"(1)[OF b] and c3 = "2.IH"(2)[OF r]
  show ?case using c1 c2 c3 by auto
next
  case (3 iter_set hasWriters st)
  then show ?case by simp
next
  case (4 iter_set hasWriters b bs st)
  from "4.prems" obtain st1 where
    h: "Eliminator_handleBlock iter_set hasWriters (nodes b) st = Inr st1"
    and r: "Eliminator_handleBlocks iter_set hasWriters bs st1 = Inr st'"
    by (auto simp: bnd_def split: sum.splits)
  note c1 = "4.IH"(1)[OF h] and c2 = "4.IH"(2)[OF r]
  show ?case using c1 c2 by auto
qed

lemma postprocess_loop_True:
  "postprocess_loop xs True g = Inr (c, g') \<Longrightarrow> c"
  by (induction xs True g rule: postprocess_loop.induct)
     (auto simp: bnd_def split: sum.splits)

lemma postprocess_loop_False:
  "postprocess_loop xs changed g = Inr (False, g') \<Longrightarrow> xs = [] \<and> g' = g"
  by (cases xs) (auto simp: bnd_def split: sum.splits dest: postprocess_loop_True)

lemma Eliminate_False_unchanged:
  assumes en: "enumerates iter_map"
    and r: "EliminateConcatCommonInputs iter_set iter_map hw g = Inr (False, g')"
  shows "g' = g"
proof -
  from r obtain st where
    h: "Eliminator_handleBlock iter_set hw (nodes (top_block g))
            \<lparr>graph_of = g, concated_outputs = [], concats_to_replace = []\<rparr> = Inr st"
    and p: "postprocess_loop (iter_map (concats_to_replace st)) False (graph_of st) = Inr (False, g')"
    by (auto simp: EliminateConcatCommonInputs_def Eliminator_run_def postprocess_def bnd_def
          split: sum.splits)
  from postprocess_loop_False[OF p] have e: "iter_map (concats_to_replace st) = []" "g' = graph_of st"
    by simp_all
  from e(1) en have "concats_to_replace st = []"
    by (metis enumerates_def length_0_conv)
  with handleBlock_change(1)[OF h] e(2) show ?thesis by simp
qed

lemma replaceWithVariadicCat_False:
  "replaceWithVariadicCat cm c g = Inr (False, g') \<Longrightarrow> g' = g"
  unfolding replaceWithVariadicCat_def
  by (auto simp: bnd_def Let_def split: sum.splits option.splits if_splits prod.splits)

lemma run_loop_True: "run_loop cm cs True g = Inr (True, g)"
  by (induction cs) simp_all

lemma run_loop_False:
  "run_loop cm cs changed g = Inr (False, g') \<Longrightarrow> g' = g"
proof (induction cs arbitrary: changed g)
  case Nil
  then show ?case by simp
next
  case (Cons c cs)
  show ?case
  proof (cases changed)
    case True
    with Cons.prems show ?thesis by (simp add: run_loop_True)
  next
    case False
    with Cons.prems obtain r where r: "replaceWithVariadicCat cm c g = Inr r"
      and l: "run_loop cm cs (fst r) (snd r) = Inr (False, g')"
      by (auto simp: bnd_def split: sum.splits)
    show ?thesis
    proof (cases "fst r")
      case True
      with l show ?thesis by (simp add: run_loop_True)
    next
      case False
      then have "snd r = g" using r replaceWithVariadicCat_False[of cm c g "snd r"]
        by (cases r) simp
      with Cons.IH[OF l] show ?thesis by simp
    qed
  qed
qed

lemma UseVariadicCat_False_unchanged:
  "UseVariadicCat cm g = Inr (False, g') \<Longrightarrow> g' = g"
  by (auto simp: UseVariadicCat_def VariadicCatUpdater_run_def bnd_def
        split: sum.splits dest: run_loop_False)

text \<open>
  C2 as amended. When \<^verbatim>\<open>EliminateConcatCommonInputs\<close> or \<^verbatim>\<open>UseVariadicCat\<close> returns
  false it has left the graph as it was, so that the next call on that graph returns false
  again and changes nothing.
\<close>

theorem no_change_reported_is_a_fixpoint:
  assumes "enumerates iter_map"
  shows "(EliminateConcatCommonInputs iter_set iter_map hw g = Inr (False, g')
            \<longrightarrow> g' = g \<and> EliminateConcatCommonInputs iter_set iter_map hw g' = Inr (False, g'))
       \<and> (UseVariadicCat cm g = Inr (False, g'')
            \<longrightarrow> g'' = g \<and> UseVariadicCat cm g'' = Inr (False, g''))"
  using Eliminate_False_unchanged[OF assms] UseVariadicCat_False_unchanged
  by metis

theorem no_change_reported_is_a_fixpoint_witness:
  "EliminateConcatCommonInputs rev rev (\<lambda>v. False) G2 = Inr (False, G2)
   \<and> UseVariadicCat (\<lambda>list cat. True) G1 = Inr (False, G1)
   \<and> UseVariadicCat (\<lambda>list cat. False) G2 = Inr (False, G2)"
proof -
  have a: "EliminateConcatCommonInputs rev rev (\<lambda>v. False) G2 = Inr (False, G2)"
    by code_simp
  have b: "UseVariadicCat (\<lambda>list cat. True) G1 = Inr (False, G1)"
    by code_simp
  have c: "UseVariadicCat (\<lambda>list cat. False) G2 = Inr (False, G2)"
    by code_simp
  from no_change_reported_is_a_fixpoint[OF enumerates_rev, where iter_set = rev
      and hw = "\<lambda>v. False" and g = G2 and g' = G2 and cm = "\<lambda>list cat. False"
      and g'' = G2] a b c
  show ?thesis by simp
qed

text \<open>
  The claim as stated fails: on \<open>G1\<close> the first run replaces \<^verbatim>\<open>%12\<close> by
  \<^verbatim>\<open>%20 = prim::Concat(%11, %3, %5)\<close>, which the second run finds as a prefix of \<^verbatim>\<open>%13\<close>.
\<close>

theorem eliminate_twice_counterexample:
  "EliminateConcatCommonInputs (\<lambda>xs. xs) (\<lambda>xs. xs) (\<lambda>v. False) G1 = Inr (True, G1a)
   \<and> EliminateConcatCommonInputs (\<lambda>xs. xs) (\<lambda>xs. xs) (\<lambda>v. False) G1a = Inr (True, G1b)"
  by code_simp

section \<open>The variadic promoter\<close>

text \<open>
  C1. On \<open>G2\<close> both \<^verbatim>\<open>aten::cat\<close> nodes take a list from a \<^verbatim>\<open>prim::ListConstruct\<close> that
  may be moved; one call of \<^verbatim>\<open>UseVariadicCat\<close> promotes \<^verbatim>\<open>%11\<close> and leaves \<^verbatim>\<open>%13\<close> an
  \<^verbatim>\<open>aten::cat\<close> of its list: once \<open>changed\<close> is true, \<^verbatim>\<open>||\<close> no longer calls
  \<^verbatim>\<open>replaceWithVariadicCat\<close>.
\<close>

theorem UseVariadicCat_stops_after_first_promotion:
  "UseVariadicCat (\<lambda>list cat. True) G2 = Inr (True, G2a)
   \<and> map_option kind (map_of (node_tab G2a) 13) = Some aten_cat
   \<and> value_node_kind G2a 12 = prim_ListConstruct"
  by code_simp

section \<open>The expander\<close>

lemma shapeIsKnown_iff:
  "shapeIsKnown g v \<longleftrightarrow>
     (\<forall>sizes. value_type g v = TensorType sizes \<longrightarrow> (\<exists>s. sizes = Some s \<and> s \<noteq> []))"
  by (auto simp: shapeIsKnown_def split: jtype.splits option.splits)

text \<open>
  C7. An \<^verbatim>\<open>aten::cat\<close> with the inputs \<open>list\<close> and \<open>dim\<close> is left alone by \<^verbatim>\<open>expandCat\<close>,
  with the state of the pass and the graph exactly as they were and no error, whenever
  the axis is no compile-time constant, or an operand or the output is a tensor of
  unknown shape or of rank 0, or the list has writers, or the list is not made by a
  \<^verbatim>\<open>prim::ListConstruct\<close>.
\<close>

theorem expandCat_skips_ineligible:
  assumes n: "map_of (node_tab (egraph st)) node = Some n"
    and ins: "inputs n = [list, dim]"
    and dis: "constant_as_int (egraph st) dim = None
              \<or> (\<exists>v \<in> set (cat_operands (egraph st) list) \<union> set (outputs n).
                    \<not> shapeIsKnown (egraph st) v)
              \<or> hasWriters list
              \<or> value_node_kind (egraph st) list \<noteq> prim_ListConstruct"
  shows "expandCat hasWriters node st = Inr st"
proof (cases "hasWriters list \<or> value_node_kind (egraph st) list \<noteq> prim_ListConstruct
              \<or> \<not> allShapesAreKnown (egraph st) n")
  case True
  then show ?thesis
    unfolding expandCat_def using n ins
    by (auto simp: deref_def input_at_def Let_def)
next
  case False
  then obtain l ln where l: "value_node (egraph st) list = Some l"
    "map_of (node_tab (egraph st)) l = Some ln"
    by (auto simp: value_node_kind_def split: option.splits)
  have ops: "cat_operands (egraph st) list = inputs ln"
    using l by (simp add: cat_operands_def)
  from False have outs: "\<forall>v \<in> set (outputs n). shapeIsKnown (egraph st) v"
    by (auto simp: allShapesAreKnown_def list_all_iff)
  from dis False outs ops
  have "constant_as_int (egraph st) dim = None
        \<or> \<not> list_all (shapeIsKnown (egraph st)) (inputs ln)"
    by (auto simp: list_all_iff)
  then show ?thesis
    unfolding expandCat_def using n ins False l
    by (auto simp: deref_def input_at_def Let_def)
qed

theorem expandCat_skips_ineligible_witness:
  "constant_as_int (egraph st7) 4 = None \<and> expandCat (\<lambda>v. False) 11 st7 = Inr st7"
proof -
  have n: "map_of (node_tab (egraph st7)) 11 = Some (mk aten_cat [10, 4] 11)"
    by (simp add: st7_def G7_def)
  have ins: "inputs (mk aten_cat [10, 4] 11) = [10, 4]" by (simp add: mk_def)
  have c: "constant_as_int (egraph st7) 4 = None"
    by (simp add: st7_def G7_def constant_as_int_def value_node_kind_def value_node_def)
  from expandCat_skips_ineligible[OF n ins, of "\<lambda>v. False"] c show ?thesis by simp
qed







subsection \<open>The offsets of the slices\<close>

text \<open>
  Inserting a node before \<open>t\<close> adds it to the nodes of a block exactly when \<open>t\<close> stands in
  the block.
\<close>

lemma slot_node_insert_slot [simp]: "slot_node (insert_slot new t s) = slot_node s"
  by (cases s) simp

lemma in_ids_of_slot:
  "t \<in> set (ids_of_slot s)
     \<longleftrightarrow> slot_node s = t \<or> t \<in> set (concat (map ids_of_block (slot_blocks s)))"
  by (cases s) auto

lemma ids_insert:
  "set (ids_of_slot (insert_slot (Slot u []) t s))
     = set (ids_of_slot s) \<union> (if t \<in> set (concat (map ids_of_block (slot_blocks s))) then {u} else {})"
  "set (ids_of_block (insert_block (Slot u []) t b))
     = set (ids_of_block b) \<union> (if t \<in> set (ids_of_block b) then {u} else {})"
proof (induction s and b)
  case (Slot i bs)
  then show ?case by (auto split: if_splits)
next
  case (Block ns rs)
  have a: "set (concat (map ids_of_slot
              (if slot_node s = t then [Slot u [], insert_slot (Slot u []) t s]
               else [insert_slot (Slot u []) t s])))
           = set (ids_of_slot s) \<union> (if t \<in> set (ids_of_slot s) then {u} else {})"
    if "s \<in> set ns" for s
    using Block[OF that] by (auto simp: in_ids_of_slot)
  have "set (concat (map ids_of_slot
              (concat (map (\<lambda>s. if slot_node s = t then [Slot u [], s] else [s])
                 (map (insert_slot (Slot u []) t) ms)))))
        = set (concat (map ids_of_slot ms))
          \<union> (if t \<in> set (concat (map ids_of_slot ms)) then {u} else {})"
    if "set ms \<subseteq> set ns" for ms
    using that
  proof (induction ms)
    case Nil
    show ?case by simp
  next
    case (Cons m ms)
    have m: "m \<in> set ns" using Cons.prems by simp
    have r: "set ms \<subseteq> set ns" using Cons.prems by simp
    show ?case using a[OF m] Cons.IH[OF r] by (simp split: if_splits)
  qed
  from this[of ns] show ?case by simp
qed

lemma create_eq: "create g k ins t = (next_unique g, snd (create g k ins t))"
  by (simp add: create_def Let_def)

text \<open>
  What \<^verbatim>\<open>create\<close> followed by \<^verbatim>\<open>insertBefore\<close> does to a well-formed graph: one new node and
  one new value under the next identifier, everything older as it was.
\<close>

lemma emit_before_simps [simp]:
  "next_unique (emit_before g k ins t node) = Suc (next_unique g)"
  "map_of (node_tab (emit_before g k ins t node)) i
     = (if i = next_unique g then Some \<lparr>kind = k, inputs = ins, outputs = [next_unique g]\<rparr>
        else map_of (node_tab g) i)"
  "map_of (value_tab (emit_before g k ins t node)) i
     = (if i = next_unique g then Some \<lparr>vnode = Some (next_unique g), vtype = t\<rparr>
        else map_of (value_tab g) i)"
  "set (ids_of_block (top_block (emit_before g k ins t node)))
     = set (ids_of_block (top_block g))
       \<union> (if node \<in> set (ids_of_block (top_block g)) then {next_unique g} else {})"
  by (simp_all add: emit_before_def create_def Let_def update_conv' ids_insert)

lemma well_formed_emit: "well_formed g \<Longrightarrow> well_formed (emit_before g k ins t node)"
  unfolding well_formed_def by (auto simp: less_Suc_eq split: if_splits)

lemma insertBefore_create:
  assumes "well_formed g" and "node \<in> set (ids_of_block (top_block g))"
  shows "insertBefore (snd (create g k ins t)) (next_unique g) node = Inr (emit_before g k ins t node)"
  using assms unfolding insertBefore_def emit_before_def well_formed_def inBlockList_def
  by (auto simp: create_def Let_def update_conv')

lemma extends_refl: "extends g g"
  by (simp add: extends_def)

lemma extends_trans: "extends g g1 \<Longrightarrow> extends g1 g2 \<Longrightarrow> extends g g2"
  unfolding extends_def by (auto simp: subset_iff)

lemma extends_emit: "extends g (emit_before g k ins t node)"
  unfolding extends_def by auto

lemma const_mono:
  "well_formed g \<Longrightarrow> extends g g' \<Longrightarrow> constant_as_int g v = Some c \<Longrightarrow> constant_as_int g' v = Some c"
  unfolding well_formed_def extends_def constant_as_int_def value_node_kind_def value_node_def
  by (auto split: option.splits kind.splits ivalue.splits)

lemma type_mono:
  "well_formed g \<Longrightarrow> extends g g' \<Longrightarrow> value_type g v = TensorType (Some s)
     \<Longrightarrow> value_type g' v = TensorType (Some s)"
  unfolding well_formed_def extends_def value_type_def
  by (auto split: option.splits)

lemma slice_range_mono:
  assumes w: "well_formed g" and e: "extends g g'" and r: "slice_range g s = Some r"
  shows "slice_range g' s = Some r"
proof -
  from r obtain n where n: "map_of (node_tab g) s = Some n"
    by (auto simp: slice_range_def split: option.splits)
  then have "s < next_unique g" using w by (auto simp: well_formed_def)
  then have n': "map_of (node_tab g') s = Some n" using e n by (simp add: extends_def)
  from r n obtain b d st en stp a c where i: "inputs n = [b, d, st, en, stp]"
    and a: "constant_as_int g st = Some a" and c: "constant_as_int g en = Some c"
    and rr: "r = (a, c)"
    by (auto simp: slice_range_def split: option.splits list.splits)
  show ?thesis
    using n' i const_mono[OF w e a] const_mono[OF w e c] rr
    by (simp add: slice_range_def)
qed

lemma insertConstant_ok:
  assumes "well_formed g" and "node \<in> set (ids_of_block (top_block g))"
  shows "insertConstant g node v
     = Inr (next_unique g,
            emit_before g (prim_Constant v) [] (case v of IVNone \<Rightarrow> NoneType | IVInt i \<Rightarrow> IntType) node)"
  unfolding insertConstant_def
  using insertBefore_create[OF assms] by (simp add: case_prod_beta create_def[of g] Let_def)

lemma constant_as_int_emit:
  "constant_as_int (emit_before g (prim_Constant (IVInt c)) [] IntType node) (next_unique g) = Some c"
  by (simp add: constant_as_int_def value_node_kind_def value_node_def)

lemma narrow_to_int_id: "- (2 ^ 31) \<le> x \<Longrightarrow> x < 2 ^ 31 \<Longrightarrow> narrow_to_int x = x"
  by (simp add: narrow_to_int_def)

lemma node_mono:
  "well_formed g \<Longrightarrow> extends g g' \<Longrightarrow> map_of (node_tab g) s = Some n \<Longrightarrow> map_of (node_tab g') s = Some n"
  unfolding well_formed_def extends_def by auto

lemma slice_of_mono:
  "well_formed g \<Longrightarrow> extends g g' \<Longrightarrow> slice_of g s = Some r \<Longrightarrow> slice_of g' s = Some r"
  using node_mono[of g g' s] by (auto simp: slice_of_def split: option.splits)

lemma copy_of_mono:
  "well_formed g \<Longrightarrow> extends g g' \<Longrightarrow> copy_of g s = Some r \<Longrightarrow> copy_of g' s = Some r"
  using node_mono[of g g' s] by (auto simp: copy_of_def split: option.splits)

lemma fst_create [simp]: "fst (create g k ins t) = next_unique g"
  by (simp add: create_def Let_def)

lemma in_ids_emit:
  "node \<in> set (ids_of_block (top_block g))
     \<Longrightarrow> node \<in> set (ids_of_block (top_block (emit_before g k ins t node')))"
  by simp

text \<open>
  The loop over the operands.  When the axis is an index into the shape of every operand and
  every running offset fits the \<^verbatim>\<open>int\<close> it is kept in, the loop returns, and it has added one
  slice of the buffer and one copy per operand, in the order of the operands; the slices
  select the ranges \<open>ranges start_idx exts\<close>, and every copy writes its operand into its slice.
\<close>

lemma expand_inputs_in_range:
  assumes "well_formed (egraph st)" and "node \<in> set (ids_of_block (top_block (egraph st)))"
    and "list_all2 (\<lambda>v e. \<exists>s. value_type (egraph st) v = TensorType (Some s)
                            \<and> nat axis < length s \<and> s ! nat axis = e) ops exts"
    and "0 \<le> axis"
    and "constant_as_int (egraph st) start = Some start_idx"
    and "\<forall>r \<in> set (ranges start_idx exts). - (2 ^ 31) \<le> snd r \<and> snd r < 2 ^ 31"
  shows "\<exists>st' sl cp.
      expand_inputs node buf dim axis one ops start_idx start st = Inr st'
      \<and> well_formed (egraph st') \<and> extends (egraph st) (egraph st')
      \<and> nodes_to_remove st' = nodes_to_remove st
      \<and> replace_uses_with st' = replace_uses_with st
      \<and> slices_added st' = slices_added st @ sl
      \<and> copies_added st' = copies_added st @ cp
      \<and> map (slice_range (egraph st')) sl = map Some (ranges start_idx exts)
      \<and> map (slice_of (egraph st')) sl = map (\<lambda>v. Some (buf, dim, one)) ops
      \<and> map (copy_of (egraph st')) cp = map Some (zip sl ops)"
  using assms
proof (induction ops arbitrary: exts st start_idx start)
  case Nil
  then show ?case by (simp add: extends_refl)
next
  case (Cons v rest)
  let ?g = "egraph st"
  let ?u = "next_unique ?g"
  from Cons.prems(3) obtain e es s where exts: "exts = e # es"
    and ty: "value_type ?g v = TensorType (Some s)" and ax: "nat axis < length s"
    and e: "s ! nat axis = e"
    and rest: "list_all2 (\<lambda>v e. \<exists>s. value_type ?g v = TensorType (Some s)
                            \<and> nat axis < length s \<and> s ! nat axis = e) rest es"
    by (auto simp: list_all2_Cons1)
  define end_idx where "end_idx = start_idx + e"
  have rng: "- (2 ^ 31) \<le> end_idx" "end_idx < 2 ^ 31"
    using Cons.prems(6) exts by (auto simp: end_idx_def)
  have nar: "narrow_to_int (start_idx + e) = end_idx"
    using rng narrow_to_int_id[of "start_idx + e"] by (simp add: end_idx_def)
  define ga where "ga = emit_before ?g (prim_Constant (IVInt end_idx)) [] IntType node"
  define gb where "gb = emit_before ga aten_slice [buf, dim, start, ?u, one] (TensorType None) node"
  define gc where "gc = emit_before gb aten_copy [Suc ?u, v] (TensorType None) node"
  have wa: "well_formed ga" unfolding ga_def by (rule well_formed_emit[OF Cons.prems(1)])
  have wb: "well_formed gb" unfolding gb_def by (rule well_formed_emit[OF wa])
  have wc: "well_formed gc" unfolding gc_def by (rule well_formed_emit[OF wb])
  have ia: "node \<in> set (ids_of_block (top_block ga))"
    unfolding ga_def by (rule in_ids_emit[OF Cons.prems(2)])
  have ib: "node \<in> set (ids_of_block (top_block gb))"
    unfolding gb_def by (rule in_ids_emit[OF ia])
  have ic: "node \<in> set (ids_of_block (top_block gc))"
    unfolding gc_def by (rule in_ids_emit[OF ib])
  have na: "next_unique ga = Suc ?u" by (simp add: ga_def)
  have nb: "next_unique gb = Suc (Suc ?u)" by (simp add: gb_def na)
  have eab: "extends ga gb" unfolding gb_def by (rule extends_emit)
  have ebc: "extends gb gc" unfolding gc_def by (rule extends_emit)
  have eac: "extends ga gc" by (rule extends_trans[OF eab ebc])
  have e0a: "extends ?g ga" unfolding ga_def by (rule extends_emit)
  have e0c: "extends ?g gc" by (rule extends_trans[OF e0a eac])
  have c1: "insertConstant ?g node (IVInt end_idx) = Inr (?u, ga)"
    using insertConstant_ok[OF Cons.prems(1,2)] by (simp add: ga_def)
  have c2: "insertBefore (snd (create ga aten_slice [buf, dim, start, ?u, one] (TensorType None)))
              (Suc ?u) node = Inr gb"
    using insertBefore_create[OF wa ia] by (simp add: gb_def na)
  have c3: "insertBefore (snd (create gb aten_copy [Suc ?u, v] (TensorType None)))
              (Suc (Suc ?u)) node = Inr gc"
    using insertBefore_create[OF wb ib] by (simp add: gc_def nb)
  define st2 where "st2 = st\<lparr>egraph := gc, slices_added := slices_added st @ [Suc ?u],
                               copies_added := copies_added st @ [Suc (Suc ?u)]\<rparr>"
  have unf: "expand_inputs node buf dim axis one (v # rest) start_idx start st
           = expand_inputs node buf dim axis one rest end_idx ?u st2"
    using Cons.prems(4) ax
    by (simp add: ty sizes_at_def e nar c1 case_prod_beta na nb c2 c3 st2_def)
  have rest2: "list_all2 (\<lambda>v e. \<exists>s. value_type (egraph st2) v = TensorType (Some s)
                            \<and> nat axis < length s \<and> s ! nat axis = e) rest es"
    using rest type_mono[OF Cons.prems(1) e0c]
    by (auto simp: st2_def elim!: list_all2_mono)
  have cend: "constant_as_int gc ?u = Some end_idx"
    using const_mono[OF wa eac] constant_as_int_emit[of ?g end_idx node] by (simp add: ga_def)
  have cstart: "constant_as_int gc start = Some start_idx"
    by (rule const_mono[OF Cons.prems(1) e0c Cons.prems(5)])
  have rng2: "\<forall>r \<in> set (ranges end_idx es). - (2 ^ 31) \<le> snd r \<and> snd r < 2 ^ 31"
    using Cons.prems(6) exts by (simp add: end_idx_def)
  from Cons.IH[of st2 es ?u end_idx] wc ic rest2 Cons.prems(4) cend rng2
  obtain st' sl cp where r:
      "expand_inputs node buf dim axis one rest end_idx ?u st2 = Inr st'"
      "well_formed (egraph st')" "extends gc (egraph st')"
      "nodes_to_remove st' = nodes_to_remove st"
      "replace_uses_with st' = replace_uses_with st"
      "slices_added st' = slices_added st @ [Suc ?u] @ sl"
      "copies_added st' = copies_added st @ [Suc (Suc ?u)] @ cp"
      "map (slice_range (egraph st')) sl = map Some (ranges end_idx es)"
      "map (slice_of (egraph st')) sl = map (\<lambda>v. Some (buf, dim, one)) rest"
      "map (copy_of (egraph st')) cp = map Some (zip sl rest)"
    by (auto simp: st2_def)
  have sn: "map_of (node_tab gc) (Suc ?u)
              = Some \<lparr>kind = aten_slice, inputs = [buf, dim, start, ?u, one], outputs = [Suc ?u]\<rparr>"
    by (simp add: gc_def gb_def nb na)
  have cn: "map_of (node_tab gc) (Suc (Suc ?u))
              = Some \<lparr>kind = aten_copy, inputs = [Suc ?u, v], outputs = [Suc (Suc ?u)]\<rparr>"
    by (simp add: gc_def nb)
  have s1: "slice_range gc (Suc ?u) = Some (start_idx, end_idx)"
    by (simp add: slice_range_def sn cstart cend)
  have s2: "slice_of gc (Suc ?u) = Some (buf, dim, one)"
    by (simp add: slice_of_def sn)
  have s3: "copy_of gc (Suc (Suc ?u)) = Some (Suc ?u, v)"
    by (simp add: copy_of_def cn)
  note m1 = slice_range_mono[OF wc r(3) s1] slice_of_mono[OF wc r(3) s2] copy_of_mono[OF wc r(3) s3]
  show ?case
    apply (rule exI[of _ st'])
    apply (rule exI[of _ "Suc ?u # sl"])
    apply (rule exI[of _ "Suc (Suc ?u) # cp"])
    using unf r m1 extends_trans[OF e0c r(3)] exts
    by (simp add: end_idx_def)
qed

lemma extends_ids:
  "extends g g' \<Longrightarrow> node \<in> set (ids_of_block (top_block g))
     \<Longrightarrow> node \<in> set (ids_of_block (top_block g'))"
  by (auto simp: extends_def)

lemma map_const_mono:
  "well_formed g \<Longrightarrow> extends g g' \<Longrightarrow> map (constant_as_int g) cs = map Some zs
     \<Longrightarrow> map (constant_as_int g') cs = map Some zs"
proof (induction cs arbitrary: zs)
  case Nil
  then show ?case by simp
next
  case (Cons c cs)
  then obtain z zs' where "zs = z # zs'" "constant_as_int g c = Some z"
    "map (constant_as_int g) cs = map Some zs'"
    by (cases zs) auto
  with Cons.IH[of zs'] Cons.prems(1,2) const_mono[of g g' c z] show ?case by simp
qed

lemma insert_size_constants_ok:
  assumes "well_formed g" and "node \<in> set (ids_of_block (top_block g))"
  shows "\<exists>cs g'. insert_size_constants g node sizes acc = Inr (acc @ cs, g')
           \<and> well_formed g' \<and> extends g g' \<and> map (constant_as_int g') cs = map Some sizes"
  using assms
proof (induction sizes arbitrary: g acc)
  case Nil
  then show ?case by (simp add: extends_refl)
next
  case (Cons sz rest)
  define ga where "ga = emit_before g (prim_Constant (IVInt sz)) [] IntType node"
  have wa: "well_formed ga" unfolding ga_def by (rule well_formed_emit[OF Cons.prems(1)])
  have ia: "node \<in> set (ids_of_block (top_block ga))"
    unfolding ga_def by (rule in_ids_emit[OF Cons.prems(2)])
  have ea: "extends g ga" unfolding ga_def by (rule extends_emit)
  have c1: "insertConstant g node (IVInt sz) = Inr (next_unique g, ga)"
    using insertConstant_ok[OF Cons.prems(1,2)] by (simp add: ga_def)
  from Cons.IH[OF wa ia, of "acc @ [next_unique g]"] obtain cs g' where r:
    "insert_size_constants ga node rest (acc @ [next_unique g]) = Inr (acc @ [next_unique g] @ cs, g')"
    "well_formed g'" "extends ga g'" "map (constant_as_int g') cs = map Some rest"
    by auto
  have c: "constant_as_int g' (next_unique g) = Some sz"
    using const_mono[OF wa r(3)] constant_as_int_emit[of g sz node] by (simp add: ga_def)
  show ?case
    apply (rule exI[of _ "next_unique g # cs"])
    apply (rule exI[of _ g'])
    using c1 r c extends_trans[OF ea r(3)] by simp
qed

text \<open>
  \<^verbatim>\<open>expandCat\<close> on an eligible node of a well-formed graph, under the same two conditions: it
  returns; the buffer is made by an \<^verbatim>\<open>aten::empty\<close> of the sizes of the output; the slices
  start at 0 and are contiguous; and the output of the node is recorded for replacement by the
  buffer.
\<close>

lemma expandCat_in_range:
  assumes n: "map_of (node_tab (egraph st)) node = Some n"
    and ins: "inputs n = [list, dim]" and outs: "outputs n = [out]"
    and hw: "\<not> hasWriters list"
    and l: "value_node (egraph st) list = Some l" "map_of (node_tab (egraph st)) l = Some ln"
      "kind ln = prim_ListConstruct"
    and tl: "value_type (egraph st) list = ListType" and td: "value_type (egraph st) dim = IntType"
    and ops: "list_all2 (\<lambda>v e. \<exists>s. value_type (egraph st) v = TensorType (Some s)
                            \<and> nat axis < length s \<and> s ! nat axis = e) (inputs ln) exts"
    and to: "value_type (egraph st) out = TensorType (Some osz)" "osz \<noteq> []"
    and ax: "constant_as_int (egraph st) dim = Some axis" "0 \<le> axis"
    and w: "well_formed (egraph st)" and i: "node \<in> set (ids_of_block (top_block (egraph st)))"
    and rng: "\<forall>r \<in> set (ranges 0 exts). - (2 ^ 31) \<le> snd r \<and> snd r < 2 ^ 31"
  shows "\<exists>st' buf one sl cp.
      expandCat hasWriters node st = Inr st'
      \<and> extends (egraph st) (egraph st')
      \<and> replace_uses_with st' = replace_uses_with st @ [(out, buf)]
      \<and> nodes_to_remove st' = nodes_to_remove st @ [node]
      \<and> slices_added st' = slices_added st @ sl
      \<and> copies_added st' = copies_added st @ cp
      \<and> alloc_sizes (egraph st') buf = Some (map Some osz)
      \<and> constant_as_int (egraph st') one = Some 1
      \<and> map (slice_of (egraph st')) sl = map (\<lambda>v. Some (buf, dim, one)) (inputs ln)
      \<and> map (slice_range (egraph st')) sl = map Some (ranges 0 exts)
      \<and> map (copy_of (egraph st')) cp = map Some (zip sl (inputs ln))"
proof -
  let ?g = "egraph st"
  let ?u = "next_unique ?g"
  define g1 where "g1 = emit_before ?g (prim_Constant IVNone) [] NoneType node"
  define g2 where "g2 = emit_before g1 (prim_Constant (IVInt 1)) [] IntType node"
  have w1: "well_formed g1" unfolding g1_def by (rule well_formed_emit[OF w])
  have w2: "well_formed g2" unfolding g2_def by (rule well_formed_emit[OF w1])
  have i1: "node \<in> set (ids_of_block (top_block g1))" unfolding g1_def by (rule in_ids_emit[OF i])
  have i2: "node \<in> set (ids_of_block (top_block g2))" unfolding g2_def by (rule in_ids_emit[OF i1])
  have n1: "next_unique g1 = Suc ?u" by (simp add: g1_def)
  have e01: "extends ?g g1" unfolding g1_def by (rule extends_emit)
  have e12: "extends g1 g2" unfolding g2_def by (rule extends_emit)
  have e02: "extends ?g g2" by (rule extends_trans[OF e01 e12])
  have c1: "insertConstant ?g node IVNone = Inr (?u, g1)"
    using insertConstant_ok[OF w i] by (simp add: g1_def)
  have c2: "insertConstant g1 node (IVInt 1) = Inr (Suc ?u, g2)"
    using insertConstant_ok[OF w1 i1] by (simp add: g2_def n1)
  have one2: "constant_as_int g2 (Suc ?u) = Some 1"
    using constant_as_int_emit[of g1 1 node] by (simp add: g2_def n1)
  from insert_size_constants_ok[OF w2 i2, of osz "[]"] obtain cs g3 where s3:
    "insert_size_constants g2 node osz [] = Inr (cs, g3)" "well_formed g3" "extends g2 g3"
    "map (constant_as_int g3) cs = map Some osz"
    by auto
  have i3: "node \<in> set (ids_of_block (top_block g3))" by (rule extends_ids[OF s3(3) i2])
  define g4 where "g4 = emit_before g3 prim_ListConstruct cs ListType node"
  define g5 where "g5 = emit_before g4 aten_empty
      [next_unique g3, ?u, ?u, ?u, ?u, ?u] (TensorType None) node"
  define g6 where "g6 = emit_before g5 (prim_Constant (IVInt 0)) [] IntType node"
  have w4: "well_formed g4" unfolding g4_def by (rule well_formed_emit[OF s3(2)])
  have w5: "well_formed g5" unfolding g5_def by (rule well_formed_emit[OF w4])
  have w6: "well_formed g6" unfolding g6_def by (rule well_formed_emit[OF w5])
  have i4: "node \<in> set (ids_of_block (top_block g4))" unfolding g4_def by (rule in_ids_emit[OF i3])
  have i5: "node \<in> set (ids_of_block (top_block g5))" unfolding g5_def by (rule in_ids_emit[OF i4])
  have i6: "node \<in> set (ids_of_block (top_block g6))" unfolding g6_def by (rule in_ids_emit[OF i5])
  have n4: "next_unique g4 = Suc (next_unique g3)" by (simp add: g4_def)
  have n5: "next_unique g5 = Suc (Suc (next_unique g3))" by (simp add: g5_def n4)
  have e34: "extends g3 g4" unfolding g4_def by (rule extends_emit)
  have e45: "extends g4 g5" unfolding g5_def by (rule extends_emit)
  have e56: "extends g5 g6" unfolding g6_def by (rule extends_emit)
  have e36: "extends g3 g6" by (rule extends_trans[OF e34 extends_trans[OF e45 e56]])
  have e26: "extends g2 g6" by (rule extends_trans[OF s3(3) e36])
  have e06: "extends ?g g6" by (rule extends_trans[OF e02 e26])
  have c4: "insertBefore (snd (create g3 prim_ListConstruct cs ListType)) (next_unique g3) node = Inr g4"
    using insertBefore_create[OF s3(2) i3] by (simp add: g4_def)
  have c5: "insertBefore (snd (create g4 aten_empty [next_unique g3, ?u, ?u, ?u, ?u, ?u] (TensorType None)))
              (Suc (next_unique g3)) node = Inr g5"
    using insertBefore_create[OF w4 i4] by (simp add: g5_def n4)
  have c6: "insertConstant g5 node (IVInt 0) = Inr (Suc (Suc (next_unique g3)), g6)"
    using insertConstant_ok[OF w5 i5] by (simp add: g6_def n5)
  have zero6: "constant_as_int g6 (Suc (Suc (next_unique g3))) = Some 0"
    using constant_as_int_emit[of g5 0 node] by (simp add: g6_def n5)
  define st6 where "st6 = st\<lparr>egraph := g6\<rparr>"
  have ops6: "list_all2 (\<lambda>v e. \<exists>s. value_type (egraph st6) v = TensorType (Some s)
                            \<and> nat axis < length s \<and> s ! nat axis = e) (inputs ln) exts"
    using ops type_mono[OF w e06] by (auto simp: st6_def elim!: list_all2_mono)
  from expand_inputs_in_range[where st = st6 and node = node and ops = "inputs ln" and axis = axis
      and exts = exts and start = "Suc (Suc (next_unique g3))" and start_idx = 0
      and buf = "Suc (next_unique g3)" and dim = dim and one = "Suc ?u"] w6 i6 ops6 ax(2) zero6 rng
  obtain st1 sl cp where r:
      "expand_inputs node (Suc (next_unique g3)) dim axis (Suc ?u) (inputs ln) 0
         (Suc (Suc (next_unique g3))) st6 = Inr st1"
      "well_formed (egraph st1)" "extends g6 (egraph st1)"
      "nodes_to_remove st1 = nodes_to_remove st"
      "replace_uses_with st1 = replace_uses_with st"
      "slices_added st1 = slices_added st @ sl"
      "copies_added st1 = copies_added st @ cp"
      "map (slice_range (egraph st1)) sl = map Some (ranges 0 exts)"
      "map (slice_of (egraph st1)) sl = map (\<lambda>v. Some (Suc (next_unique g3), dim, Suc ?u)) (inputs ln)"
      "map (copy_of (egraph st1)) cp = map Some (zip sl (inputs ln))"
    by (auto simp: st6_def)
  have known: "list_all (shapeIsKnown ?g) (inputs ln)"
  proof -
    have "shapeIsKnown ?g v" if "v \<in> set (inputs ln)" for v
    proof -
      from that ops obtain s where "value_type ?g v = TensorType (Some s)" "nat axis < length s"
        by (auto simp: list_all2_conv_all_nth in_set_conv_nth)
      then show ?thesis by (auto simp: shapeIsKnown_def)
    qed
    then show ?thesis by (simp add: list_all_iff)
  qed
  have all: "allShapesAreKnown ?g n"
    using ins outs tl td to by (simp add: allShapesAreKnown_def shapeIsKnown_def)
  have lk: "value_node_kind ?g list = prim_ListConstruct"
    using l by (simp add: value_node_kind_def)
  have to2: "value_type g2 out = TensorType (Some osz)" by (rule type_mono[OF w e02 to(1)])
  have run: "expandCat hasWriters node st
     = Inr (st1\<lparr>replace_uses_with := replace_uses_with st1 @ [(out, Suc (next_unique g3))],
                nodes_to_remove := nodes_to_remove st1 @ [node]\<rparr>)"
    unfolding expandCat_def
    using n ins outs hw l ax(1)
    by (simp add: deref_def input_at_def lk all known c1 c2 node_output_def to2 s3(1)
          case_prod_beta c4 c5 c6 n4 r(1)[unfolded st6_def] Let_def)
  have e6f: "extends g6 (egraph st1)" by (rule r(3))
  have onef: "constant_as_int (egraph st1) (Suc ?u) = Some 1"
    by (rule const_mono[OF w2 extends_trans[OF e26 e6f] one2])
  have csf: "map (constant_as_int (egraph st1)) cs = map Some osz"
    by (rule map_const_mono[OF s3(2) extends_trans[OF e36 e6f] s3(4)])
  have ln4: "map_of (node_tab g5) (next_unique g3)
       = Some \<lparr>kind = prim_ListConstruct, inputs = cs, outputs = [next_unique g3]\<rparr>"
    by (simp add: g5_def g4_def n4)
  have lv4: "map_of (value_tab g5) (next_unique g3)
       = Some \<lparr>vnode = Some (next_unique g3), vtype = ListType\<rparr>"
    by (simp add: g5_def g4_def n4)
  have bn5: "map_of (node_tab g5) (Suc (next_unique g3))
       = Some \<lparr>kind = aten_empty, inputs = [next_unique g3, ?u, ?u, ?u, ?u, ?u],
               outputs = [Suc (next_unique g3)]\<rparr>"
    by (simp add: g5_def n4)
  have bv5: "map_of (value_tab g5) (Suc (next_unique g3))
       = Some \<lparr>vnode = Some (Suc (next_unique g3)), vtype = TensorType None\<rparr>"
    by (simp add: g5_def n4)
  have e5f: "extends g5 (egraph st1)" by (rule extends_trans[OF e56 e6f])
  have lt: "next_unique g3 < next_unique g5" "Suc (next_unique g3) < next_unique g5"
    by (simp_all add: n5)
  have allocf: "alloc_sizes (egraph st1) (Suc (next_unique g3)) = Some (map Some osz)"
    using e5f lt ln4 lv4 bn5 bv5 csf
    by (simp add: alloc_sizes_def extends_def value_node_def value_node_kind_def cat_operands_def)
  show ?thesis
    apply (rule exI[of _ "st1\<lparr>replace_uses_with := replace_uses_with st1 @ [(out, Suc (next_unique g3))],
                nodes_to_remove := nodes_to_remove st1 @ [node]\<rparr>"])
    apply (rule exI[of _ "Suc (next_unique g3)"])
    apply (rule exI[of _ "Suc ?u"])
    apply (rule exI[of _ sl])
    apply (rule exI[of _ cp])
    using run r extends_trans[OF e06 e6f] onef allocf
    by simp
qed

text \<open>
  After \<^verbatim>\<open>replaceAllUsesWith\<close> no use of the old value is left.
\<close>

lemma returns_rauw:
  "returns_of_slot (rauw_slot old new s) = map (\<lambda>v. if v = old then new else v) (returns_of_slot s)"
  "returns_of_block (rauw_block old new b) = map (\<lambda>v. if v = old then new else v) (returns_of_block b)"
  by (induction s and b) (simp_all add: map_concat comp_def cong: map_cong)

lemma replaceAllUsesWith_leaves_no_use:
  "old \<noteq> new \<Longrightarrow> \<not> hasUses (replaceAllUsesWith g old new) old"
  by (auto simp: hasUses_def replaceAllUsesWith_def list_ex_iff returns_rauw)

text \<open>
  The conditions hold on \<open>G6s\<close>.
\<close>

lemma well_formed_G6s: "well_formed G6s"
  by (auto simp: well_formed_def G6s_def tv_def mk_def split: if_splits)

lemma expandCat_in_range_example:
  "\<exists>st' buf one sl cp.
      expandCat (\<lambda>v. False) 11 (init_expander G6s) = Inr st'
      \<and> replace_uses_with st' = [(11, buf)]
      \<and> nodes_to_remove st' = [11]
      \<and> slices_added st' = sl
      \<and> copies_added st' = cp
      \<and> alloc_sizes (egraph st') buf = Some [Some 6, Some 3]
      \<and> constant_as_int (egraph st') one = Some 1
      \<and> map (slice_of (egraph st')) sl = [Some (buf, 5, one), Some (buf, 5, one)]
      \<and> map (slice_range (egraph st')) sl = [Some (0, 2), Some (2, 6)]
      \<and> map (copy_of (egraph st')) cp = map Some (zip sl [1, 2])"
proof -
  have n: "map_of (node_tab (egraph (init_expander G6s))) 11 = Some (mk aten_cat [10, 5] 11)"
    by (simp add: init_expander_def G6s_def)
  have l: "value_node (egraph (init_expander G6s)) 10 = Some 10"
    "map_of (node_tab (egraph (init_expander G6s))) 10 = Some (mk prim_ListConstruct [1, 2] 10)"
    "kind (mk prim_ListConstruct [1, 2] 10) = prim_ListConstruct"
    by (simp_all add: init_expander_def G6s_def value_node_def mk_def)
  have ops: "list_all2 (\<lambda>v e. \<exists>s. value_type (egraph (init_expander G6s)) v = TensorType (Some s)
                            \<and> nat 0 < length s \<and> s ! nat 0 = e)
               (inputs (mk prim_ListConstruct [1, 2] 10)) [2, 4]"
    by (simp add: init_expander_def G6s_def value_type_def mk_def tv_def)
  have ty: "value_type (egraph (init_expander G6s)) 10 = ListType"
    "value_type (egraph (init_expander G6s)) 5 = IntType"
    "value_type (egraph (init_expander G6s)) 11 = TensorType (Some [6, 3])"
    by (simp_all add: init_expander_def G6s_def value_type_def tv_def)
  have ax: "constant_as_int (egraph (init_expander G6s)) 5 = Some 0"
    by (simp add: init_expander_def G6s_def constant_as_int_def value_node_kind_def
          value_node_def mk_def)
  have w: "well_formed (egraph (init_expander G6s))" using well_formed_G6s by (simp add: init_expander_def)
  have i: "11 \<in> set (ids_of_block (top_block (egraph (init_expander G6s))))"
    by (simp add: init_expander_def G6s_def)
  from expandCat_in_range[where hasWriters = "\<lambda>v. False" and st = "init_expander G6s" and node = 11
      and list = 10 and dim = 5 and out = 11 and exts = "[2, 4]" and axis = 0 and osz = "[6, 3]",
      OF n _ _ _ l ty(1,2) ops ty(3) _ ax _ w i]
  obtain st' buf one sl cp where r:
      "expandCat (\<lambda>v. False) 11 (init_expander G6s) = Inr st'"
      "replace_uses_with st' = [(11, buf)]"
      "nodes_to_remove st' = [11]"
      "slices_added st' = sl"
      "copies_added st' = cp"
      "alloc_sizes (egraph st') buf = Some [Some 6, Some 3]"
      "constant_as_int (egraph st') one = Some 1"
      "map (slice_of (egraph st')) sl = [Some (buf, 5, one), Some (buf, 5, one)]"
      "map (slice_range (egraph st')) sl = [Some (0, 2), Some (2, 6)]"
      "map (copy_of (egraph st')) cp = map Some (zip sl [1, 2])"
    by (auto simp: mk_def init_expander_def)
  show ?thesis
    apply (rule exI[of _ st'])
    apply (rule exI[of _ buf])
    apply (rule exI[of _ one])
    apply (rule exI[of _ sl])
    apply (rule exI[of _ cp])
    using r by simp
qed

text \<open>
  On operands of shape \<open>[2, 3]\<close> and \<open>[4, 3]\<close> the two slices that \<^verbatim>\<open>expandCat\<close> adds select the
  rows 0 to 2 and 2 to 6 of the buffer: each starts where the one before it ends.
\<close>

lemma expandCat_offsets_small:
  "expanded_ranges (expandCat (\<lambda>v. False) 11 (init_expander G6s)) = Inr [Some (0, 2), Some (2, 6)]"
  by code_simp

text \<open>
  C6. \<^verbatim>\<open>expandCat\<close> is to give every operand the slice from the running offset to the running
  offset plus the extent of the operand along the axis, the offset starting at 0, so that the
  slices are contiguous and cover the whole axis.  The running offset is kept in an \<^verbatim>\<open>int\<close>
  (\<^verbatim>\<open>int end_idx = start_idx + *cat_inp_tensortype_sizes[cat_dim_value]\<close>, line 336), while the
  extents are \<^verbatim>\<open>int64_t\<close>.  In \<open>G6\<close>, two operands of \<open>2 ^ 30\<close> elements each, the second slice
  should run from \<open>2 ^ 30\<close> to \<open>2 ^ 31\<close>; the code makes it run from \<open>2 ^ 30\<close> to \<open>- 2 ^ 31\<close>.
\<close>

theorem expandCat_offset_wraps_at_32_bits:
  "expanded_ranges (expandCat (\<lambda>v. False) 11 (init_expander G6))
     = Inr [Some (0, 1073741824), Some (1073741824, - 2147483648)]"
  by code_simp

section \<open>The fixpoint driver\<close>























end
